theory Spec2Isabelle
  imports Main "HOL-Library.Sublist"
begin

section \<open>JavaScript values and the built-ins the client relies on\<close>

text \<open>
  The client (\<^verbatim>\<open>src/index.ts\<close>) takes its path, query and content maps as
  \<^verbatim>\<open>Record<string, any>\<close>. The values stored in such a map are modelled by
  \<open>jsval\<close>: the JSON-shaped values, plus \<^verbatim>\<open>undefined\<close>, symbols (whose
  string coercion throws) and BigInts (which \<^verbatim>\<open>JSON.stringify\<close> refuses). A plain
  \<open>VObj ps\<close> is the ordinary object with prototype \<^verbatim>\<open>Object.prototype\<close> whose own
  properties are exactly \<open>ps\<close>, enumerable data properties with string keys, in
  iteration order; \<open>VArr xs\<close> is the ordinary array with the elements \<open>xs\<close> and no
  other own property. Strings are lists of \<open>char\<close>. No value is callable: function
  values are outside the model.
\<close>

text \<open>
  The numbers of the model are the safe integers (\<^verbatim>\<open>Number.isSafeInteger\<close>), the
  integers of magnitude at most \<open>2\<^sup>5\<^sup>3 - 1\<close>. Each of them is a \<^verbatim>\<open>Number\<close>, and
  JavaScript prints each of them in plain decimal notation (the exponent form starts at
  \<open>10\<^sup>2\<^sup>1\<close>).
\<close>

typedef safe_integer = "{n :: int. - 9007199254740991 \<le> n \<and> n \<le> 9007199254740991}"
  morphisms number_value Number
proof
  show "0 \<in> {n :: int. - 9007199254740991 \<le> n \<and> n \<le> 9007199254740991}" by simp
qed

datatype jsval =
    VUndefined
  | VNull
  | VBool bool
  | VNum safe_integer
  | VBigInt int
  | VStr string
  | VSymbol string
  | VArr "jsval list"
  | VObj "(string \<times> jsval) list"

text \<open>What a \<^verbatim>\<open>throw\<close> carries: a \<^verbatim>\<open>TypeError\<close> raised by a built-in, or a
  value thrown by a hook or the transport.\<close>

datatype error = TypeError string | Thrown jsval

text \<open>\<^verbatim>\<open>ToBoolean\<close>, as used by \<^verbatim>\<open>||\<close> and the conditional operator.\<close>

fun truthy :: "jsval \<Rightarrow> bool" where
  "truthy VUndefined = False"
| "truthy VNull = False"
| "truthy (VBool b) = b"
| "truthy (VNum n) = (number_value n \<noteq> 0)"
| "truthy (VBigInt n) = (n \<noteq> 0)"
| "truthy (VStr s) = (s \<noteq> [])"
| "truthy (VSymbol d) = True"
| "truthy (VArr xs) = True"
| "truthy (VObj ps) = True"

subsection \<open>Decimal numerals\<close>

text \<open>
  The decimal numeral of an integer: how a BigInt of any size prints, and how a number
  of the model, a safe integer, prints.
\<close>

definition digit_char :: "nat \<Rightarrow> char" where
  "digit_char d = ''0123456789'' ! (d mod 10)"

fun dec_nat :: "nat \<Rightarrow> string" where
  "dec_nat n = (if n < 10 then [digit_char n] else dec_nat (n div 10) @ [digit_char n])"

declare dec_nat.simps [simp del]

definition dec_int :: "int \<Rightarrow> string" where
  "dec_int i = (if i < 0 then CHR ''-'' # dec_nat (nat (- i)) else dec_nat (nat i))"

subsection \<open>String coercion\<close>

text \<open>
  \<^verbatim>\<open>ToString\<close>, the coercion behind template literals and behind the replacement
  argument of \<^verbatim>\<open>String.prototype.replace\<close>. A symbol throws a \<^verbatim>\<open>TypeError\<close>;
  arrays join their elements with commas (\<^verbatim>\<open>undefined\<close> and \<^verbatim>\<open>null\<close> elements
  print as the empty string). An object is converted by \<^verbatim>\<open>OrdinaryToPrimitive\<close>: its
  \<^verbatim>\<open>toString\<close> is called when callable, then its \<^verbatim>\<open>valueOf\<close>. A plain object
  inherits both, and prints as \<^verbatim>\<open>[object Object]\<close>; but an own property named
  \<^verbatim>\<open>toString\<close> shadows the inherited method, no value of the model is callable, and
  the inherited \<^verbatim>\<open>valueOf\<close> returns the object itself, so such an object throws a
  \<^verbatim>\<open>TypeError\<close>.
\<close>

fun to_string :: "jsval \<Rightarrow> error + string"
  and join_elems :: "jsval list \<Rightarrow> error + string" where
  "to_string VUndefined = Inr ''undefined''"
| "to_string VNull = Inr ''null''"
| "to_string (VBool b) = Inr (if b then ''true'' else ''false'')"
| "to_string (VNum n) = Inr (dec_int (number_value n))"
| "to_string (VBigInt n) = Inr (dec_int n)"
| "to_string (VStr s) = Inr s"
| "to_string (VSymbol d) = Inl (TypeError ''Cannot convert a Symbol value to a string'')"
| "to_string (VArr xs) = join_elems xs"
| "to_string (VObj ps) =
     (if ''toString'' \<in> set (map fst ps)
      then Inl (TypeError ''Cannot convert object to primitive value'')
      else Inr ''[object Object]'')"
| "join_elems [] = Inr []"
| "join_elems (x # xs) =
     (case (if x = VUndefined \<or> x = VNull then Inr [] else to_string x) of
        Inl e \<Rightarrow> Inl e
      | Inr s \<Rightarrow>
          (if xs = [] then Inr s
           else (case join_elems xs of Inl e \<Rightarrow> Inl e | Inr r \<Rightarrow> Inr (s @ '','' @ r))))"

subsection \<open>JSON text\<close>

text \<open>
  \<^verbatim>\<open>JSON.stringify(v)\<close> with one argument. At the top level \<^verbatim>\<open>undefined\<close> and
  symbols give \<^verbatim>\<open>undefined\<close> (here \<open>None\<close>); inside an array they print as
  \<^verbatim>\<open>null\<close>, inside an object the property is left out. A BigInt anywhere throws.
  Strings are quoted with the escapes of \<^verbatim>\<open>QuoteJSONString\<close>.
\<close>

definition hex_char :: "nat \<Rightarrow> char" where
  "hex_char d = ''0123456789abcdef'' ! (d mod 16)"

definition json_escape :: "char \<Rightarrow> string" where
  "json_escape c =
     (if c = CHR 0x22 then [CHR 0x5C, CHR 0x22]
      else if c = CHR 0x5C then [CHR 0x5C, CHR 0x5C]
      else if c = CHR 0x08 then [CHR 0x5C, CHR ''b'']
      else if c = CHR 0x09 then [CHR 0x5C, CHR ''t'']
      else if c = CHR 0x0A then [CHR 0x5C, CHR ''n'']
      else if c = CHR 0x0C then [CHR 0x5C, CHR ''f'']
      else if c = CHR 0x0D then [CHR 0x5C, CHR ''r'']
      else if (of_char c :: nat) < 32
        then [CHR 0x5C, CHR ''u'', CHR ''0'', CHR ''0'',
              hex_char (of_char c div 16), hex_char (of_char c)]
      else [c])"

definition json_quote :: "string \<Rightarrow> string" where
  "json_quote s = CHR 0x22 # concat (map json_escape s) @ [CHR 0x22]"

text \<open>\<^verbatim>\<open>Array.prototype.join\<close> on strings.\<close>

fun join_with :: "string \<Rightarrow> string list \<Rightarrow> string" where
  "join_with sep [] = []"
| "join_with sep [s] = s"
| "join_with sep (s # t # ss) = s @ sep @ join_with sep (t # ss)"

fun JSON_stringify :: "jsval \<Rightarrow> error + string option"
  and stringify_elems :: "jsval list \<Rightarrow> error + string list"
  and stringify_props :: "(string \<times> jsval) list \<Rightarrow> error + string list" where
  "JSON_stringify VUndefined = Inr None"
| "JSON_stringify (VSymbol d) = Inr None"
| "JSON_stringify VNull = Inr (Some ''null'')"
| "JSON_stringify (VBool b) = Inr (Some (if b then ''true'' else ''false''))"
| "JSON_stringify (VNum n) = Inr (Some (dec_int (number_value n)))"
| "JSON_stringify (VBigInt n) = Inl (TypeError ''Do not know how to serialize a BigInt'')"
| "JSON_stringify (VStr s) = Inr (Some (json_quote s))"
| "JSON_stringify (VArr xs) =
     (case stringify_elems xs of
        Inl e \<Rightarrow> Inl e
      | Inr ss \<Rightarrow> Inr (Some (''['' @ join_with '','' ss @ '']'')))"
| "JSON_stringify (VObj ps) =
     (case stringify_props ps of
        Inl e \<Rightarrow> Inl e
      | Inr ss \<Rightarrow> Inr (Some (''{'' @ join_with '','' ss @ ''}'')))"
| "stringify_elems [] = Inr []"
| "stringify_elems (x # xs) =
     (case JSON_stringify x of
        Inl e \<Rightarrow> Inl e
      | Inr r \<Rightarrow>
          (case stringify_elems xs of
             Inl e \<Rightarrow> Inl e
           | Inr rs \<Rightarrow> Inr ((case r of None \<Rightarrow> ''null'' | Some s \<Rightarrow> s) # rs)))"
| "stringify_props [] = Inr []"
| "stringify_props (kv # ps) =
     (case JSON_stringify (snd kv) of
        Inl e \<Rightarrow> Inl e
      | Inr r \<Rightarrow>
          (case stringify_props ps of
             Inl e \<Rightarrow> Inl e
           | Inr rs \<Rightarrow>
               Inr (case r of None \<Rightarrow> rs | Some s \<Rightarrow> (json_quote (fst kv) @ '':'' @ s) # rs)))"

subsection \<open>String replacement\<close>

text \<open>
  \<^verbatim>\<open>s.replace(pattern, value)\<close> with a string pattern: the replacement is coerced to a
  string first (so a symbol throws even when the pattern does not occur), the first
  occurrence of the pattern is located, and the replacement text is expanded by
  \<^verbatim>\<open>GetSubstitution\<close>: \<^verbatim>\<open>$$\<close> stands for a dollar sign, \<^verbatim>\<open>$&\<close> for the matched
  text, \<^verbatim>\<open>$`\<close> for the text before the match and \<^verbatim>\<open>$'\<close> for the text after it.
  A string pattern has no capture groups, so every other dollar sign is literal.
\<close>

fun split_first :: "string \<Rightarrow> string \<Rightarrow> (string \<times> string) option" where
  "split_first pat [] = (if pat = [] then Some ([], []) else None)"
| "split_first pat (c # cs) =
     (if prefix pat (c # cs) then Some ([], drop (length pat) (c # cs))
      else (case split_first pat cs of
              None \<Rightarrow> None
            | Some ba \<Rightarrow> Some (c # fst ba, snd ba)))"

fun GetSubstitution :: "string \<Rightarrow> string \<Rightarrow> string \<Rightarrow> string \<Rightarrow> string" where
  "GetSubstitution matched preceding following [] = []"
| "GetSubstitution matched preceding following [c] = [c]"
| "GetSubstitution matched preceding following (c # d # ds) =
     (if c \<noteq> CHR ''$'' then c # GetSubstitution matched preceding following (d # ds)
      else if d = CHR ''$'' then CHR ''$'' # GetSubstitution matched preceding following ds
      else if d = CHR ''&'' then matched @ GetSubstitution matched preceding following ds
      else if d = CHR 0x60 then preceding @ GetSubstitution matched preceding following ds
      else if d = CHR 0x27 then following @ GetSubstitution matched preceding following ds
      else c # GetSubstitution matched preceding following (d # ds))"

definition replace :: "string \<Rightarrow> string \<Rightarrow> jsval \<Rightarrow> error + string" where
  "replace s pat v =
     (case to_string v of
        Inl e \<Rightarrow> Inl e
      | Inr r \<Rightarrow>
          (case split_first pat s of
             None \<Rightarrow> Inr s
           | Some ba \<Rightarrow> Inr (fst ba @ GetSubstitution pat (fst ba) (snd ba) r @ snd ba)))"

text \<open>\<^verbatim>\<open>try { body } catch (e) { handler }\<close> around a computation that may throw.\<close>

definition try_catch :: "error + 'a \<Rightarrow> (error \<Rightarrow> error + 'a) \<Rightarrow> error + 'a" where
  "try_catch body handler = (case body of Inl e \<Rightarrow> handler e | Inr v \<Rightarrow> Inr v)"

section \<open>The parameter serializers\<close>

text \<open>
  A map argument is either absent (\<^verbatim>\<open>undefined\<close> or \<^verbatim>\<open>null\<close>, here \<open>None\<close>) or a
  plain object, given as what \<^verbatim>\<open>Object.entries\<close> returns for it.
\<close>

type_synonym jsmap = "(string \<times> jsval) list"

text \<open>\<^verbatim>\<open>m || {}\<close>: an object is truthy, an absent map is replaced by the empty one.\<close>

definition or_empty :: "jsmap option \<Rightarrow> jsmap" where
  "or_empty m = (case m of None \<Rightarrow> [] | Some ps \<Rightarrow> ps)"

text \<open>\<^verbatim>\<open>m[k]\<close>: reading a property of \<^verbatim>\<open>undefined\<close> throws, a missing property
  reads as \<^verbatim>\<open>undefined\<close>.\<close>

definition get_prop :: "jsmap option \<Rightarrow> string \<Rightarrow> error + jsval" where
  "get_prop m k =
     (case m of
        None \<Rightarrow> Inl (TypeError ''Cannot read properties of undefined'')
      | Some ps \<Rightarrow> Inr (case map_of ps k of None \<Rightarrow> VUndefined | Some v \<Rightarrow> v))"

text \<open>\<^verbatim>\<open>#serializePathParams\<close> (lines 253--261): the reducer, the guarded block and
  the method with its \<^verbatim>\<open>catch\<close>.\<close>

fun path_reduce :: "jsmap \<Rightarrow> string \<Rightarrow> error + string" where
  "path_reduce [] acc = Inr acc"
| "path_reduce (kv # ps) acc =
     (case replace acc (''{'' @ fst kv @ ''}'') (snd kv) of
        Inl e \<Rightarrow> Inl e
      | Inr acc' \<Rightarrow> path_reduce ps acc')"

definition path_block :: "string \<Rightarrow> jsmap option \<Rightarrow> error + string" where
  "path_block template params = path_reduce (or_empty params) template"

definition serializePathParams :: "string \<Rightarrow> jsmap option \<Rightarrow> error + string" where
  "serializePathParams template params =
     try_catch (path_block template params) (\<lambda>e. Inr template)"

text \<open>\<^verbatim>\<open>#serializeQueryParams\<close> (lines 263--273). \<^verbatim>\<open>slice(0, -1)\<close> drops the last
  character.\<close>

fun query_reduce :: "jsmap \<Rightarrow> string \<Rightarrow> error + string" where
  "query_reduce [] acc = Inr acc"
| "query_reduce (kv # ps) acc =
     (case to_string (snd kv) of
        Inl e \<Rightarrow> Inl e
      | Inr v \<Rightarrow> query_reduce ps (acc @ fst kv @ ''='' @ v @ ''&''))"

definition query_block :: "jsmap option \<Rightarrow> error + string" where
  "query_block qry =
     (case query_reduce (or_empty qry) ''?'' of
        Inl e \<Rightarrow> Inl e
      | Inr r \<Rightarrow> Inr (butlast r))"

definition serializeQueryParams :: "jsmap option \<Rightarrow> error + string" where
  "serializeQueryParams qry = try_catch (query_block qry) (\<lambda>e. Inr [])"

text \<open>\<^verbatim>\<open>#serializeRequestBody\<close> (lines 275--290): the first key or, when there is
  none or it is the empty string, \<^verbatim>\<open>application/json\<close>; the payload under that key
  or, when it is falsy, the empty object.\<close>

record serialized_body =
  contentType :: string
  requestBody :: "string option"

definition first_key_or_json :: "jsmap \<Rightarrow> string" where
  "first_key_or_json ps =
     (case map fst ps of
        [] \<Rightarrow> ''application/json''
      | k # ks \<Rightarrow> (if k \<noteq> [] then k else ''application/json''))"

definition body_block :: "jsmap option \<Rightarrow> error + serialized_body" where
  "body_block cnt =
     (let ct = first_key_or_json (or_empty cnt) in
      case get_prop cnt ct of
        Inl e \<Rightarrow> Inl e
      | Inr payload \<Rightarrow>
          (case JSON_stringify (if truthy payload then payload else VObj []) of
             Inl e \<Rightarrow> Inl e
           | Inr rb \<Rightarrow> Inr \<lparr>contentType = ct, requestBody = rb\<rparr>))"

definition body_fallback :: "error + serialized_body" where
  "body_fallback =
     (case JSON_stringify (VObj []) of
        Inl e \<Rightarrow> Inl e
      | Inr rb \<Rightarrow> Inr \<lparr>contentType = ''application/json'', requestBody = rb\<rparr>)"

definition serializeRequestBody :: "jsmap option \<Rightarrow> error + serialized_body" where
  "serializeRequestBody cnt = try_catch (body_block cnt) (\<lambda>e. body_fallback)"

section \<open>Request descriptors, responses and the store\<close>

text \<open>
  An \<^verbatim>\<open>await\<close>ed call resolves with a value, rejects with an error, or never settles.
\<close>

datatype 'a outcome = Resolved 'a | Rejected error | Pending

text \<open>
  \<^verbatim>\<open>HeadersInit\<close>, the type of \<^verbatim>\<open>RequestInit.headers\<close>: a plain record, an array of
  name/value pairs, or a \<^verbatim>\<open>Headers\<close> instance. Spreading (\<^verbatim>\<open>{...h}\<close>) copies the own
  enumerable properties: the entries of a record, the indexed elements of an array, and
  nothing of a \<^verbatim>\<open>Headers\<close> instance, which keeps its entries in an internal list. A
  plain headers object is read by property name only, so it is a map.
\<close>

datatype HeadersInit =
    HRecord "string \<Rightarrow> jsval option"
  | HArray "jsval list"
  | HInstance "(string \<times> string) list"

definition spread :: "HeadersInit option \<Rightarrow> (string \<Rightarrow> jsval option)" where
  "spread h =
     (case h of
        None \<Rightarrow> Map.empty
      | Some (HRecord m) \<Rightarrow> m
      | Some (HArray xs) \<Rightarrow> map_of (zip (map dec_nat [0..<length xs]) xs)
      | Some (HInstance hs) \<Rightarrow> Map.empty)"

text \<open>
  \<^verbatim>\<open>RequestInit\<close>: the fields the client writes, and every other transport option
  under \<open>init_rest\<close>. \<open>None\<close> is an absent field.
\<close>

record RequestInit =
  init_method :: "string option"
  init_headers :: "HeadersInit option"
  init_body :: "string option"
  init_rest :: "string \<Rightarrow> jsval option"

definition empty_init :: RequestInit where
  "empty_init =
     \<lparr>init_method = None, init_headers = None, init_body = None, init_rest = Map.empty\<rparr>"

text \<open>
  \<^verbatim>\<open>Response\<close>: \<open>body\<close> is the body stream (\<open>None\<close> for \<^verbatim>\<open>null\<close>), \<open>json\<close> is what
  calling the JSON accessor settles with. \<^verbatim>\<open>Omit<Response, "json">\<close> is the record
  without that accessor.
\<close>

record ResponseSansJson =
  ok :: bool
  status :: nat
  statusText :: string
  headers :: "(string \<times> string) list"
  url :: string
  body :: "string option"

record Response = ResponseSansJson +
  json :: "jsval outcome"

text \<open>
  Request descriptors are mutable objects that the caller, the hooks and the transport
  share by reference: the store maps addresses to descriptors, \<open>next_free\<close> is where the
  next object literal is allocated, and \<open>world\<close> is everything else a hook or the
  transport can read and change.
\<close>

type_synonym addr = nat

record 'w store =
  heap :: "addr \<Rightarrow> RequestInit"
  next_free :: addr
  world :: 'w

definition alloc :: "'w store \<Rightarrow> addr \<times> 'w store" where
  "alloc s =
     (next_free s,
      s\<lparr>heap := (heap s)(next_free s := empty_init), next_free := Suc (next_free s)\<rparr>)"

definition assign :: "addr \<Rightarrow> (RequestInit \<Rightarrow> RequestInit) \<Rightarrow> 'w store \<Rightarrow> 'w store" where
  "assign a f s = s\<lparr>heap := (heap s)(a := f (heap s a))\<rparr>"

text \<open>\<^verbatim>\<open>requestInit ?? {}\<close>: the caller's object itself, or a fresh empty one.\<close>

definition or_fresh :: "addr option \<Rightarrow> 'w store \<Rightarrow> addr \<times> 'w store" where
  "or_fresh requestInit s = (case requestInit of Some a \<Rightarrow> (a, s) | None \<Rightarrow> alloc s)"

section \<open>The client\<close>

text \<open>
  A hook and the transport are given by what a call does: it receives the request info
  and the address of the descriptor (an afterware the address and the response), and
  ends with an outcome and the store it leaves, in which it may have changed the
  descriptor or the world. A response is passed as a value.
\<close>

type_synonym 'w Middleware = "string \<Rightarrow> addr \<Rightarrow> 'w store \<Rightarrow> unit outcome \<times> 'w store"

type_synonym 'w Afterware = "addr \<Rightarrow> Response \<Rightarrow> 'w store \<Rightarrow> unit outcome \<times> 'w store"

type_synonym 'w Fetcher = "string \<Rightarrow> addr \<Rightarrow> 'w store \<Rightarrow> Response outcome \<times> 'w store"

record 'w ClientConfig =
  cfg_baseUrl :: string
  cfg_middlewares :: "'w Middleware list option"
  cfg_afterwares :: "'w Afterware list option"

record 'w Client =
  fetcher :: "'w Fetcher"
  baseUrl :: string
  middlewares :: "'w Middleware list"
  afterwares :: "'w Afterware list"

text \<open>The constructor (lines 95--99); the transport is the ambient \<^verbatim>\<open>fetch\<close>.\<close>

definition new_Client :: "'w Fetcher \<Rightarrow> 'w ClientConfig \<Rightarrow> 'w Client" where
  "new_Client fetch config =
     \<lparr>fetcher = fetch,
      baseUrl = cfg_baseUrl config,
      middlewares = (case cfg_middlewares config of None \<Rightarrow> [] | Some ms \<Rightarrow> ms),
      afterwares = (case cfg_afterwares config of None \<Rightarrow> [] | Some as \<Rightarrow> as)\<rparr>"

record options =
  content :: "jsmap option"
  path :: "jsmap option"
  query :: "jsmap option"

record envelope =
  data :: jsval
  requestResponse :: ResponseSansJson

subsection \<open>The pipeline\<close>

text \<open>
  Every call the pipeline makes is recorded: which hook (by its position in the
  registration list), with which request info and which descriptor object.
\<close>

datatype event =
    Middleware_called nat string addr
  | Transport_called string addr
  | Afterware_called nat addr
  | Decoder_called

type_synonym ('a, 'w) async = "'w store \<times> event list \<Rightarrow> 'a outcome \<times> 'w store \<times> event list"

definition resolve :: "'a \<Rightarrow> ('a, 'w) async" where
  "resolve x = (\<lambda>st. (Resolved x, st))"

text \<open>\<^verbatim>\<open>const x = await m; k(x)\<close>: the continuation runs only once \<open>m\<close> has resolved,
  on the state \<open>m\<close> left; a rejection or a promise that never settles ends the caller.\<close>

definition await :: "('a, 'w) async \<Rightarrow> ('a \<Rightarrow> ('b, 'w) async) \<Rightarrow> ('b, 'w) async" where
  "await m k =
     (\<lambda>st. case m st of
        (Resolved x, st') \<Rightarrow> k x st'
      | (Rejected e, st') \<Rightarrow> (Rejected e, st')
      | (Pending, st') \<Rightarrow> (Pending, st'))"

definition call :: "event \<Rightarrow> ('w store \<Rightarrow> 'a outcome \<times> 'w store) \<Rightarrow> ('a, 'w) async" where
  "call ev f = (\<lambda>st. case f (fst st) of (r, s') \<Rightarrow> (r, s', snd st @ [ev]))"

text \<open>The two \<^verbatim>\<open>for ... of\<close> loops of \<^verbatim>\<open>#request\<close> (lines 109--111 and 115--117).\<close>

fun run_middlewares :: "'w Middleware list \<Rightarrow> nat \<Rightarrow> string \<Rightarrow> addr \<Rightarrow> (unit, 'w) async" where
  "run_middlewares [] i requestInfo a = resolve ()"
| "run_middlewares (middleware # ms) i requestInfo a =
     await (call (Middleware_called i requestInfo a) (middleware requestInfo a))
       (\<lambda>_. run_middlewares ms (Suc i) requestInfo a)"

fun run_afterwares :: "'w Afterware list \<Rightarrow> nat \<Rightarrow> addr \<Rightarrow> Response \<Rightarrow> (unit, 'w) async" where
  "run_afterwares [] j a r = resolve ()"
| "run_afterwares (afterware # as) j a r =
     await (call (Afterware_called j a) (afterware a r))
       (\<lambda>_. run_afterwares as (Suc j) a r)"

text \<open>\<^verbatim>\<open>#response\<close> (lines 126--136).\<close>

definition response :: "Response \<Rightarrow> (envelope, 'w) async" where
  "response r =
     await (call Decoder_called
              (\<lambda>s. (if body r \<noteq> None then json r else Resolved (VObj []), s)))
       (\<lambda>v. resolve \<lparr>data = v, requestResponse = ResponseSansJson.truncate r\<rparr>)"

text \<open>\<^verbatim>\<open>#request\<close> (lines 101--124).\<close>

definition request :: "'w Client \<Rightarrow> string \<Rightarrow> addr option \<Rightarrow> (envelope, 'w) async" where
  "request c pth requestInit =
     (\<lambda>st. let requestInfo = baseUrl c @ pth;
               (a, s0) = or_fresh requestInit (fst st)
           in await (run_middlewares (middlewares c) 0 requestInfo a)
                (\<lambda>_. await (call (Transport_called requestInfo a) (fetcher c requestInfo a))
                  (\<lambda>requestResponse.
                     await (run_afterwares (afterwares c) 0 a requestResponse)
                       (\<lambda>_. response requestResponse)))
                (s0, snd st))"

subsection \<open>The verb methods\<close>

text \<open>
  Each verb method first builds the descriptor (for \<^verbatim>\<open>get\<close> lines 148--158, for
  \<^verbatim>\<open>post\<close> lines 176--187, and likewise \<^verbatim>\<open>put\<close> and \<^verbatim>\<open>delete\<close>) and then hands it
  to \<^verbatim>\<open>#request\<close>. The first part returns the path with its query string, the address
  of the descriptor and the store it leaves. The three assignments to \<^verbatim>\<open>init\<close> are
  updates of the object at that address. (\<^verbatim>\<open>get\<close> passes the query string through
  \<^verbatim>\<open>|| ""\<close>, which replaces the empty string by itself.)
\<close>

definition merged_headers :: "string \<Rightarrow> HeadersInit option \<Rightarrow> HeadersInit" where
  "merged_headers ct h = HRecord ([''Content-Type'' \<mapsto> VStr ct] ++ spread h)"

text \<open>\<^verbatim>\<open>requestInit?.headers\<close>, read from the caller's object as it is at that moment.\<close>

definition caller_headers :: "addr option \<Rightarrow> 'w store \<Rightarrow> HeadersInit option" where
  "caller_headers requestInit s =
     (case requestInit of None \<Rightarrow> None | Some ri \<Rightarrow> init_headers (heap s ri))"

text \<open>Sequencing of statements that may throw.\<close>

definition and_then :: "error + 'a \<Rightarrow> ('a \<Rightarrow> error + 'b) \<Rightarrow> error + 'b" where
  "and_then x f = (case x of Inl e \<Rightarrow> Inl e | Inr v \<Rightarrow> f v)"

definition get_init ::
  "string \<Rightarrow> options \<Rightarrow> addr option \<Rightarrow> 'w store \<Rightarrow> error + string \<times> addr \<times> 'w store" where
  "get_init urlPath opts requestInit s =
     and_then (serializeRequestBody (content opts)) (\<lambda>sb.
     and_then (serializePathParams urlPath (path opts)) (\<lambda>seralizedPath.
     and_then (serializeQueryParams (query opts)) (\<lambda>q.
       let serializedQuery = (if q \<noteq> [] then q else []);
           (init, s1) = or_fresh requestInit s;
           s2 = assign init (\<lambda>ob. ob\<lparr>init_method := Some ''GET''\<rparr>) s1;
           s3 = assign init (\<lambda>ob. ob\<lparr>init_headers :=
                  Some (merged_headers (contentType sb) (caller_headers requestInit s2))\<rparr>) s2
       in Inr (seralizedPath @ serializedQuery, init, s3))))"

definition post_init ::
  "string \<Rightarrow> options \<Rightarrow> addr option \<Rightarrow> 'w store \<Rightarrow> error + string \<times> addr \<times> 'w store" where
  "post_init urlPath opts requestInit s =
     and_then (serializeRequestBody (content opts)) (\<lambda>sb.
     and_then (serializePathParams urlPath (path opts)) (\<lambda>seralizedPath.
     and_then (serializeQueryParams (query opts)) (\<lambda>serializedQuery.
       let (init, s1) = or_fresh requestInit s;
           s2 = assign init (\<lambda>ob. ob\<lparr>init_method := Some ''POST''\<rparr>) s1;
           s3 = assign init (\<lambda>ob. ob\<lparr>init_headers :=
                  Some (merged_headers (contentType sb) (caller_headers requestInit s2))\<rparr>) s2;
           s4 = assign init (\<lambda>ob. ob\<lparr>init_body := requestBody sb\<rparr>) s3
       in Inr (seralizedPath @ serializedQuery, init, s4))))"

definition put_init ::
  "string \<Rightarrow> options \<Rightarrow> addr option \<Rightarrow> 'w store \<Rightarrow> error + string \<times> addr \<times> 'w store" where
  "put_init urlPath opts requestInit s =
     and_then (serializeRequestBody (content opts)) (\<lambda>sb.
     and_then (serializePathParams urlPath (path opts)) (\<lambda>seralizedPath.
     and_then (serializeQueryParams (query opts)) (\<lambda>serializedQuery.
       let (init, s1) = or_fresh requestInit s;
           s2 = assign init (\<lambda>ob. ob\<lparr>init_method := Some ''PUT''\<rparr>) s1;
           s3 = assign init (\<lambda>ob. ob\<lparr>init_headers :=
                  Some (merged_headers (contentType sb) (caller_headers requestInit s2))\<rparr>) s2;
           s4 = assign init (\<lambda>ob. ob\<lparr>init_body := requestBody sb\<rparr>) s3
       in Inr (seralizedPath @ serializedQuery, init, s4))))"

definition delete_init ::
  "string \<Rightarrow> options \<Rightarrow> addr option \<Rightarrow> 'w store \<Rightarrow> error + string \<times> addr \<times> 'w store" where
  "delete_init urlPath opts requestInit s =
     and_then (serializeRequestBody (content opts)) (\<lambda>sb.
     and_then (serializePathParams urlPath (path opts)) (\<lambda>seralizedPath.
     and_then (serializeQueryParams (query opts)) (\<lambda>serializedQuery.
       let (init, s1) = or_fresh requestInit s;
           s2 = assign init (\<lambda>ob. ob\<lparr>init_method := Some ''DELETE''\<rparr>) s1;
           s3 = assign init (\<lambda>ob. ob\<lparr>init_headers :=
                  Some (merged_headers (contentType sb) (caller_headers requestInit s2))\<rparr>) s2;
           s4 = assign init (\<lambda>ob. ob\<lparr>init_body := requestBody sb\<rparr>) s3
       in Inr (seralizedPath @ serializedQuery, init, s4))))"

text \<open>
  The \<^verbatim>\<open>return this.#request(...)\<close> that ends each verb method. An exception thrown
  while the descriptor is built rejects the method's result, as in any \<^verbatim>\<open>async\<close>
  function.
\<close>

definition return_request ::
  "'w Client \<Rightarrow> ('w store \<Rightarrow> error + string \<times> addr \<times> 'w store) \<Rightarrow> (envelope, 'w) async" where
  "return_request c build =
     (\<lambda>st. case build (fst st) of
        Inl e \<Rightarrow> (Rejected e, st)
      | Inr (p, init, s') \<Rightarrow> request c p (Some init) (s', snd st))"

definition get :: "'w Client \<Rightarrow> string \<Rightarrow> options \<Rightarrow> addr option \<Rightarrow> (envelope, 'w) async" where
  "get c urlPath opts requestInit = return_request c (get_init urlPath opts requestInit)"

definition post :: "'w Client \<Rightarrow> string \<Rightarrow> options \<Rightarrow> addr option \<Rightarrow> (envelope, 'w) async" where
  "post c urlPath opts requestInit = return_request c (post_init urlPath opts requestInit)"

definition put :: "'w Client \<Rightarrow> string \<Rightarrow> options \<Rightarrow> addr option \<Rightarrow> (envelope, 'w) async" where
  "put c urlPath opts requestInit = return_request c (put_init urlPath opts requestInit)"

definition delete :: "'w Client \<Rightarrow> string \<Rightarrow> options \<Rightarrow> addr option \<Rightarrow> (envelope, 'w) async" where
  "delete c urlPath opts requestInit = return_request c (delete_init urlPath opts requestInit)"

text \<open>The four verbs (\<^verbatim>\<open>RestMethod\<close>, line 17), to speak of "a verb method".\<close>

datatype RestMethod = Get | Put | Post | Delete

fun verb_init ::
  "RestMethod \<Rightarrow> string \<Rightarrow> options \<Rightarrow> addr option \<Rightarrow> 'w store
     \<Rightarrow> error + string \<times> addr \<times> 'w store" where
  "verb_init Get = get_init"
| "verb_init Put = put_init"
| "verb_init Post = post_init"
| "verb_init Delete = delete_init"

fun verb_method ::
  "RestMethod \<Rightarrow> 'w Client \<Rightarrow> string \<Rightarrow> options \<Rightarrow> addr option \<Rightarrow> (envelope, 'w) async" where
  "verb_method Get = get"
| "verb_method Put = put"
| "verb_method Post = post"
| "verb_method Delete = delete"

text \<open>The order in which a call that runs to its end makes its calls.\<close>

definition full_order :: "'w Client \<Rightarrow> string \<Rightarrow> addr \<Rightarrow> event list" where
  "full_order c requestInfo a =
     map (\<lambda>i. Middleware_called i requestInfo a) [0..<length (middlewares c)]
     @ [Transport_called requestInfo a]
     @ map (\<lambda>j. Afterware_called j a) [0..<length (afterwares c)]
     @ [Decoder_called]"

section \<open>Vocabulary of the statements\<close>

text \<open>The method name each verb method writes into the descriptor.\<close>

fun verb_name :: "RestMethod \<Rightarrow> string" where
  "verb_name Get = ''GET''"
| "verb_name Put = ''PUT''"
| "verb_name Post = ''POST''"
| "verb_name Delete = ''DELETE''"

text \<open>What the serializers return for the options of a call: the path followed by the
  query string, and the content type with the body.\<close>

definition url_text :: "string \<Rightarrow> options \<Rightarrow> string" where
  "url_text urlPath opts =
     projr (serializePathParams urlPath (path opts)) @ projr (serializeQueryParams (query opts))"

definition built_body :: "options \<Rightarrow> serialized_body" where
  "built_body opts = projr (serializeRequestBody (content opts))"

text \<open>One \<^verbatim>\<open>key=value\<close> pair of a query string, the value coerced to a string.\<close>

definition pair_text :: "string \<times> jsval \<Rightarrow> string" where
  "pair_text kv = fst kv @ ''='' @ projr (to_string (snd kv))"

definition has_string_form :: "string \<times> jsval \<Rightarrow> bool" where
  "has_string_form kv = (\<not> isl (to_string (snd kv)))"

subsection \<open>Hooks run in order\<close>

text \<open>
  What it means that hooks run one after the other, said without the loops of the
  client. An action is a hook applied to its arguments. \<open>threaded fs ss\<close>: the actions
  \<open>fs\<close> run in list order, the first on the store \<open>ss ! 0\<close>, each of them resolves, and
  each next one starts on the store its predecessor left; \<open>ss\<close> lists these stores.
\<close>

type_synonym 'w action = "'w store \<Rightarrow> unit outcome \<times> 'w store"

definition threaded :: "'w action list \<Rightarrow> 'w store list \<Rightarrow> bool" where
  "threaded fs ss =
     (length ss = Suc (length fs)
      \<and> (\<forall>i < length fs. (fs ! i) (ss ! i) = (Resolved (), ss ! Suc i)))"

text \<open>
  \<open>hooks_ran fs s k out sf\<close>: started on \<open>s\<close>, the first \<open>k\<close> actions of \<open>fs\<close> ran in
  order and resolved. Either they were all of \<open>fs\<close>, and \<open>sf\<close> is the store the last one
  left; or action \<open>k\<close> ran next, on the store its predecessor left, and did not resolve:
  \<open>out\<close> and \<open>sf\<close> are what it ended with, and no later action ran.
\<close>

definition hooks_ran ::
  "'w action list \<Rightarrow> 'w store \<Rightarrow> nat \<Rightarrow> unit outcome \<Rightarrow> 'w store \<Rightarrow> bool" where
  "hooks_ran fs s k out sf =
     (\<exists>ss. k \<le> length fs \<and> threaded (take k fs) ss \<and> hd ss = s
        \<and> (if k < length fs
            then (fs ! k) (last ss) = (out, sf) \<and> out \<noteq> Resolved ()
            else out = Resolved () \<and> sf = last ss))"

text \<open>How a hook that did not resolve ends the call.\<close>

definition halted :: "unit outcome \<Rightarrow> 'a outcome" where
  "halted out = (case out of Rejected e \<Rightarrow> Rejected e | _ \<Rightarrow> Pending)"

text \<open>
  \<open>pipeline_run c info a s t result\<close>: what a call of the pipeline of client \<open>c\<close>, with
  request info \<open>info\<close> and the descriptor at address \<open>a\<close>, started on the store \<open>s\<close>
  after the calls \<open>t\<close>, ends with. The registered middlewares run in registration order,
  each given \<open>info\<close> and \<open>a\<close>; if one does not resolve, the call ends as it did, on the
  store it left, after the calls up to it. Otherwise the transport is called with
  \<open>info\<close> and \<open>a\<close> on the store the last middleware left; if it does not resolve, the
  call ends likewise. Otherwise the registered afterwares run in registration order on
  the store the transport left, each given \<open>a\<close> and the transport's response; if one does
  not resolve, the call ends as it did. Otherwise the call ends with what the decoder
  makes of the response, on the store the last afterware left, after all calls of
  \<open>full_order\<close>.
\<close>

definition pipeline_run ::
  "'w Client \<Rightarrow> string \<Rightarrow> addr \<Rightarrow> 'w store \<Rightarrow> event list
     \<Rightarrow> envelope outcome \<times> 'w store \<times> event list \<Rightarrow> bool" where
  "pipeline_run c info a s t result =
     (\<exists>k out1 s1.
        hooks_ran (map (\<lambda>m. m info a) (middlewares c)) s k out1 s1
        \<and> (if out1 \<noteq> Resolved ()
            then result = (halted out1, s1, t @ take (Suc k) (full_order c info a))
            else \<exists>rout s2.
              fetcher c info a s1 = (rout, s2)
              \<and> (case rout of
                    Rejected e \<Rightarrow>
                      result = (Rejected e, s2,
                                t @ take (Suc (length (middlewares c))) (full_order c info a))
                  | Pending \<Rightarrow>
                      result = (Pending, s2,
                                t @ take (Suc (length (middlewares c))) (full_order c info a))
                  | Resolved r \<Rightarrow>
                      (\<exists>j out3 s3.
                         hooks_ran (map (\<lambda>f. f a r) (afterwares c)) s2 j out3 s3
                         \<and> (if out3 \<noteq> Resolved ()
                             then result =
                                    (halted out3, s3,
                                     t @ take (Suc (length (middlewares c)) + Suc j)
                                           (full_order c info a))
                             else result =
                                    (fst (response r (s3, [])), s3,
                                     t @ full_order c info a))))))"

text \<open>The common shape of the two loops of \<^verbatim>\<open>#request\<close>, to reason about both at once.\<close>

fun run_actions :: "(nat \<Rightarrow> event) \<Rightarrow> 'w action list \<Rightarrow> nat \<Rightarrow> (unit, 'w) async" where
  "run_actions ev [] i = resolve ()"
| "run_actions ev (f # fs) i = await (call (ev i) f) (\<lambda>_. run_actions ev fs (Suc i))"

subsection \<open>Example data\<close>

text \<open>
  A store with empty descriptors, a transport that answers every request with the same
  response, and hooks that write their name into the world, which is a log here.
\<close>

definition no_options :: options where
  "no_options = \<lparr>content = None, path = None, query = None\<rparr>"

definition empty_store :: "string list store" where
  "empty_store = \<lparr>heap = (\<lambda>a. empty_init), next_free = 1, world = []\<rparr>"

definition example_response :: Response where
  "example_response =
     \<lparr>ok = True, status = 200, statusText = ''OK'', headers = [], url = ''https://api/users/7'',
      body = Some ''bytes'', json = Resolved (VObj [(''id'', VNum (Number 7))])\<rparr>"

definition logging_middleware :: "string \<Rightarrow> string list Middleware" where
  "logging_middleware name = (\<lambda>requestInfo a s. (Resolved (), s\<lparr>world := world s @ [name]\<rparr>))"

definition raising_middleware :: "string \<Rightarrow> string list Middleware" where
  "raising_middleware name =
     (\<lambda>requestInfo a s. (Rejected (Thrown (VStr name)), s\<lparr>world := world s @ [name]\<rparr>))"

definition logging_afterware :: "string \<Rightarrow> string list Afterware" where
  "logging_afterware name = (\<lambda>a r s. (Resolved (), s\<lparr>world := world s @ [name]\<rparr>))"

definition logging_fetch :: "string list Fetcher" where
  "logging_fetch =
     (\<lambda>requestInfo a s. (Resolved example_response, s\<lparr>world := world s @ [''transport'']\<rparr>))"

definition example_client :: "string list Client" where
  "example_client =
     new_Client logging_fetch
       \<lparr>cfg_baseUrl = ''https://api'',
        cfg_middlewares = Some [logging_middleware ''m1'', logging_middleware ''m2''],
        cfg_afterwares = Some [logging_afterware ''a1'', logging_afterware ''a2'']\<rparr>"

definition failing_client :: "string list Client" where
  "failing_client =
     new_Client logging_fetch
       \<lparr>cfg_baseUrl = ''https://api'',
        cfg_middlewares =
          Some [logging_middleware ''m1'', raising_middleware ''boom'', logging_middleware ''m2''],
        cfg_afterwares = Some [logging_afterware ''a1'']\<rparr>"

definition bare_client :: "string list Client" where
  "bare_client =
     new_Client logging_fetch
       \<lparr>cfg_baseUrl = ''https://api'', cfg_middlewares = None, cfg_afterwares = None\<rparr>"

section \<open>Auxiliary facts\<close>

subsection \<open>Numbers\<close>

lemma number_value_Number [simp]:
  "- 9007199254740991 \<le> n \<Longrightarrow> n \<le> 9007199254740991 \<Longrightarrow> number_value (Number n) = n"
  by (simp add: Number_inverse)

lemma number_value_bounds:
  "- 9007199254740991 \<le> number_value n \<and> number_value n \<le> 9007199254740991"
  using number_value [of n] by simp

subsection \<open>Exceptions and the serializers\<close>

lemma try_catch_Inr [simp]: "try_catch (Inr v) h = Inr v"
  by (simp add: try_catch_def)

lemma try_catch_Inl [simp]: "try_catch (Inl e) h = h e"
  by (simp add: try_catch_def)

lemma body_fallback_eq: "body_fallback = Inr \<lparr>contentType = ''application/json'', requestBody = Some ''{}''\<rparr>"
  by (simp add: body_fallback_def)

lemma serializePathParams_returns: "\<exists>r. serializePathParams t m = Inr r"
  by (cases "path_block t m") (simp_all add: serializePathParams_def)

lemma serializeQueryParams_returns: "\<exists>r. serializeQueryParams q = Inr r"
  by (cases "query_block q") (simp_all add: serializeQueryParams_def)

lemma serializeRequestBody_returns: "\<exists>r. serializeRequestBody c = Inr r"
  by (cases "body_block c") (simp_all add: serializeRequestBody_def body_fallback_eq)

lemma serializePathParams_no_map:
  "serializePathParams template None = Inr template"
  "serializePathParams template (Some []) = Inr template"
  by (simp_all add: serializePathParams_def path_block_def or_empty_def)

lemma body_first_key:
  assumes "k \<noteq> []"
  shows "body_block (Some ((k, v) # rest))
           = (case JSON_stringify (if truthy v then v else VObj []) of
                Inl e \<Rightarrow> Inl e
              | Inr rb \<Rightarrow> Inr \<lparr>contentType = k, requestBody = rb\<rparr>)"
  using assms by (simp add: body_block_def or_empty_def first_key_or_json_def get_prop_def)

text \<open>What \<^verbatim>\<open>#serializeRequestBody\<close> returns, case by case.\<close>

lemma serializeRequestBody_cases:
  "serializeRequestBody None = Inr \<lparr>contentType = ''application/json'', requestBody = Some ''{}''\<rparr>
   \<and> serializeRequestBody (Some [])
       = Inr \<lparr>contentType = ''application/json'', requestBody = Some ''{}''\<rparr>
   \<and> (k \<noteq> [] \<and> truthy v \<and> JSON_stringify v = Inr b \<longrightarrow>
        serializeRequestBody (Some ((k, v) # rest)) = Inr \<lparr>contentType = k, requestBody = b\<rparr>)
   \<and> (k \<noteq> [] \<and> \<not> truthy v \<longrightarrow>
        serializeRequestBody (Some ((k, v) # rest))
          = Inr \<lparr>contentType = k, requestBody = Some ''{}''\<rparr>)
   \<and> (k \<noteq> [] \<and> truthy v \<and> JSON_stringify v = Inl e \<longrightarrow>
        serializeRequestBody (Some ((k, v) # rest))
          = Inr \<lparr>contentType = ''application/json'', requestBody = Some ''{}''\<rparr>)
   \<and> contentType (built_body \<lparr>content = Some (([], v) # rest), path = pm, query = qm\<rparr>)
       = ''application/json''"
proof -
  have a: "serializeRequestBody None
             = Inr \<lparr>contentType = ''application/json'', requestBody = Some ''{}''\<rparr>"
    by (simp add: serializeRequestBody_def body_block_def or_empty_def first_key_or_json_def
          get_prop_def body_fallback_eq)
  have b: "serializeRequestBody (Some [])
             = Inr \<lparr>contentType = ''application/json'', requestBody = Some ''{}''\<rparr>"
    by (simp add: serializeRequestBody_def body_block_def or_empty_def first_key_or_json_def
          get_prop_def)
  have c: "k \<noteq> [] \<and> truthy v \<and> JSON_stringify v = Inr b \<longrightarrow>
        serializeRequestBody (Some ((k, v) # rest)) = Inr \<lparr>contentType = k, requestBody = b\<rparr>"
    by (simp add: serializeRequestBody_def body_first_key)
  have d: "k \<noteq> [] \<and> \<not> truthy v \<longrightarrow>
        serializeRequestBody (Some ((k, v) # rest))
          = Inr \<lparr>contentType = k, requestBody = Some ''{}''\<rparr>"
    by (simp add: serializeRequestBody_def body_first_key)
  have e: "k \<noteq> [] \<and> truthy v \<and> JSON_stringify v = Inl e \<longrightarrow>
        serializeRequestBody (Some ((k, v) # rest))
          = Inr \<lparr>contentType = ''application/json'', requestBody = Some ''{}''\<rparr>"
    by (simp add: serializeRequestBody_def body_first_key body_fallback_eq)
  have f: "contentType (built_body \<lparr>content = Some (([], v) # rest), path = pm, query = qm\<rparr>)
       = ''application/json''"
  proof (cases "body_block (Some (([], v) # rest))")
    case (Inl x)
    then show ?thesis by (simp add: built_body_def serializeRequestBody_def body_fallback_eq)
  next
    case (Inr x)
    then have "contentType x = ''application/json''"
      by (auto simp: body_block_def or_empty_def first_key_or_json_def get_prop_def Let_def
            split: sum.splits)
    with Inr show ?thesis by (simp add: built_body_def serializeRequestBody_def)
  qed
  show ?thesis using a b c d e f by blast
qed

lemma eval_dec7: "dec_int 7 = ''7''"
  by (simp add: dec_int_def dec_nat.simps digit_char_def)

lemma eval_body_x1:
  "serializeRequestBody (Some [(''application/json'', VObj [(''x'', VNum (Number 1))])])
     = Inr \<lparr>contentType = ''application/json'',
            requestBody = Some (CHR ''{'' # CHR 0x22 # CHR ''x'' # CHR 0x22 # '':1}'')\<rparr>"
  by (simp add: serializeRequestBody_def body_first_key json_quote_def json_escape_def
        dec_int_def dec_nat.simps digit_char_def)

subsection \<open>Query strings\<close>

lemma query_reduce_ok:
  "list_all has_string_form q \<Longrightarrow>
   query_reduce q acc = Inr (acc @ concat (map (\<lambda>kv. pair_text kv @ ''&'') q))"
proof (induction q arbitrary: acc)
  case Nil
  then show ?case by simp
next
  case (Cons kv q)
  then obtain v where v: "to_string (snd kv) = Inr v"
    by (cases "to_string (snd kv)") (auto simp: has_string_form_def)
  with Cons show ?case by (simp add: pair_text_def)
qed

lemma query_reduce_fails:
  "\<not> list_all has_string_form q \<Longrightarrow> isl (query_reduce q acc)"
proof (induction q arbitrary: acc)
  case Nil
  then show ?case by simp
next
  case (Cons kv q)
  show ?case
  proof (cases "to_string (snd kv)")
    case (Inl e)
    then show ?thesis by simp
  next
    case (Inr w)
    then have "has_string_form kv" by (simp add: has_string_form_def)
    with Cons.prems have "\<not> list_all has_string_form q" by simp
    from Cons.IH[OF this] Inr show ?thesis by simp
  qed
qed

lemma butlast_amp_concat:
  "q \<noteq> [] \<Longrightarrow> butlast (concat (map (\<lambda>kv. f kv @ ''&'') q)) = join_with ''&'' (map f q)"
proof (induction q rule: induct_list012)
  case 1 then show ?case by simp
next
  case (2 x) then show ?case by simp
next
  case (3 x y zs)
  have ne: "concat (map (\<lambda>kv. f kv @ ''&'') (y # zs)) \<noteq> []" by simp
  have "butlast (concat (map (\<lambda>kv. f kv @ ''&'') (x # y # zs)))
      = (f x @ ''&'') @ butlast (concat (map (\<lambda>kv. f kv @ ''&'') (y # zs)))"
    using ne by (simp add: butlast_append)
  with 3 show ?case by simp
qed

lemma query_ok:
  assumes "list_all has_string_form q"
  shows "serializeQueryParams (Some q)
           = Inr (butlast (''?'' @ concat (map (\<lambda>kv. pair_text kv @ ''&'') q)))"
  using assms by (simp add: serializeQueryParams_def query_block_def or_empty_def query_reduce_ok)

lemma query_join:
  assumes "list_all has_string_form q" "q \<noteq> []"
  shows "serializeQueryParams (Some q) = Inr (''?'' @ join_with ''&'' (map pair_text q))"
proof -
  have ne: "concat (map (\<lambda>kv. pair_text kv @ ''&'') q) \<noteq> []" using assms(2) by (cases q) auto
  show ?thesis
    using ne butlast_amp_concat[OF assms(2), of pair_text]
    by (simp add: query_ok[OF assms(1)] butlast_append)
qed

lemma query_no_string_form:
  "\<not> list_all has_string_form q \<Longrightarrow> serializeQueryParams (Some q) = Inr []"
  using query_reduce_fails[of q "''?''"]
  by (cases "query_reduce q ''?''") (simp_all add: serializeQueryParams_def query_block_def or_empty_def)

subsection \<open>Replacement of the first occurrence\<close>

text \<open>
  \<open>split_first\<close> finds the leftmost occurrence of the pattern, and a replacement text
  without a dollar sign is inserted as it is.
\<close>

lemma GetSubstitution_plain:
  "CHR ''$'' \<notin> set r \<Longrightarrow> GetSubstitution matched preceding following r = r"
  by (induction matched preceding following r rule: GetSubstitution.induct) auto

lemma split_first_Some:
  "split_first pat s = Some (b, a) \<Longrightarrow> s = b @ pat @ a"
proof (induction s arbitrary: b)
  case Nil
  then show ?case by (auto split: if_splits)
next
  case (Cons c cs)
  show ?case
  proof (cases "prefix pat (c # cs)")
    case True
    with Cons.prems show ?thesis by (auto simp: prefix_def)
  next
    case False
    with Cons.prems obtain b' where "split_first pat cs = Some (b', a)" "b = c # b'"
      by (auto split: option.splits prod.splits)
    with Cons.IH show ?thesis by simp
  qed
qed

lemma split_first_None:
  "split_first pat s = None \<Longrightarrow> s \<noteq> b @ pat @ a"
proof (induction s arbitrary: b)
  case Nil
  then show ?case by (auto split: if_splits)
next
  case (Cons c cs)
  then have np: "\<not> prefix pat (c # cs)" and rest: "split_first pat cs = None"
    by (auto split: if_splits option.splits)
  show ?case
  proof (cases b)
    case Nil
    with np show ?thesis by (auto simp: prefix_def)
  next
    case (Cons d ds)
    with Cons.IH[OF rest, of ds] show ?thesis by auto
  qed
qed

lemma split_first_leftmost:
  "split_first pat s = Some (b, a) \<Longrightarrow> s = b' @ pat @ a' \<Longrightarrow> length b \<le> length b'"
proof (induction s arbitrary: b b')
  case Nil
  then show ?case by (auto split: if_splits)
next
  case (Cons c cs)
  show ?case
  proof (cases "prefix pat (c # cs)")
    case True
    with Cons.prems(1) have "b = []" by simp
    then show ?thesis by simp
  next
    case False
    with Cons.prems(1) obtain b0 where b0: "split_first pat cs = Some (b0, a)" "b = c # b0"
      by (auto split: option.splits prod.splits)
    from False Cons.prems(2) obtain d ds where b': "b' = d # ds"
      by (cases b') (auto simp: prefix_def)
    with Cons.prems(2) have "cs = ds @ pat @ a'" by simp
    from Cons.IH[OF b0(1) this] b0(2) b' show ?thesis by simp
  qed
qed

lemma replace_plain:
  assumes "to_string v = Inr r" "CHR ''$'' \<notin> set r"
  shows "replace s pat v
           = Inr (case split_first pat s of None \<Rightarrow> s | Some ba \<Rightarrow> fst ba @ r @ snd ba)"
  using assms by (simp add: replace_def GetSubstitution_plain split: option.splits)

lemma serializePathParams_example:
  "serializePathParams ''/users/{id}/posts/{postId}''
     (Some [(''id'', VStr ''7''), (''postId'', VStr ''3'')]) = Inr ''/users/7/posts/3''"
  by (simp add: serializePathParams_def path_block_def or_empty_def replace_def)

subsection \<open>Awaited calls and the two hook loops\<close>

lemma await_Resolved: "m st = (Resolved x, st') \<Longrightarrow> await m k st = k x st'"
  by (simp add: await_def)

lemma await_Rejected: "m st = (Rejected e, st') \<Longrightarrow> await m k st = (Rejected e, st')"
  by (simp add: await_def)

lemma await_Pending: "m st = (Pending, st') \<Longrightarrow> await m k st = (Pending, st')"
  by (simp add: await_def)

lemma call_eq: "f s = (r, s') \<Longrightarrow> call ev f (s, t) = (r, s', t @ [ev])"
  by (simp add: call_def)

lemma upt_shift: "i # [Suc i..<Suc i + n] = [i..<i + Suc n]"
  by (simp add: upt_conv_Cons)

lemma run_middlewares_trace:
  "\<exists>n. n \<le> length ms \<and>
        snd (snd (run_middlewares ms i info a (s, t)))
          = t @ map (\<lambda>k. Middleware_called k info a) [i..<i + n] \<and>
        (fst (run_middlewares ms i info a (s, t)) = Resolved () \<longrightarrow> n = length ms)"
proof (induction ms arbitrary: i s t)
  case Nil
  show ?case by (simp add: resolve_def)
next
  case (Cons m ms)
  obtain r s' where m: "m info a s = (r, s')" by (cases "m info a s")
  let ?ev = "Middleware_called i info a"
  have c: "call ?ev (m info a) (s, t) = (r, s', t @ [?ev])" using m by (rule call_eq)
  show ?case
  proof (cases r)
    case (Resolved u)
    from Cons.IH[of "Suc i" s' "t @ [?ev]"] obtain n where n: "n \<le> length ms"
      "snd (snd (run_middlewares ms (Suc i) info a (s', t @ [?ev])))
         = (t @ [?ev]) @ map (\<lambda>k. Middleware_called k info a) [Suc i..<Suc i + n]"
      "fst (run_middlewares ms (Suc i) info a (s', t @ [?ev])) = Resolved () \<longrightarrow> n = length ms"
      by blast
    have run: "run_middlewares (m # ms) i info a (s, t)
             = run_middlewares ms (Suc i) info a (s', t @ [?ev])"
      using c Resolved by (simp add: await_def)
    have "(t @ [?ev]) @ map (\<lambda>k. Middleware_called k info a) [Suc i..<Suc i + n]
        = t @ map (\<lambda>k. Middleware_called k info a) [i..<i + Suc n]"
      unfolding upt_shift[symmetric] by simp
    with n run show ?thesis
      by (intro exI[of _ "Suc n"]) simp
  next
    case (Rejected e)
    then have "run_middlewares (m # ms) i info a (s, t) = (Rejected e, s', t @ [?ev])"
      using c by (simp add: await_def)
    then show ?thesis by (intro exI[of _ "Suc 0"]) (simp add: upt_conv_Cons)
  next
    case Pending
    then have "run_middlewares (m # ms) i info a (s, t) = (Pending, s', t @ [?ev])"
      using c by (simp add: await_def)
    then show ?thesis by (intro exI[of _ "Suc 0"]) (simp add: upt_conv_Cons)
  qed
qed

lemma run_afterwares_trace:
  "\<exists>n. n \<le> length as \<and>
        snd (snd (run_afterwares as j a r (s, t)))
          = t @ map (\<lambda>k. Afterware_called k a) [j..<j + n] \<and>
        (fst (run_afterwares as j a r (s, t)) = Resolved () \<longrightarrow> n = length as)"
proof (induction as arbitrary: j s t)
  case Nil
  show ?case by (simp add: resolve_def)
next
  case (Cons f as)
  obtain out s' where f: "f a r s = (out, s')" by (cases "f a r s")
  let ?ev = "Afterware_called j a"
  have c: "call ?ev (f a r) (s, t) = (out, s', t @ [?ev])" using f by (rule call_eq)
  show ?case
  proof (cases out)
    case (Resolved u)
    from Cons.IH[of "Suc j" s' "t @ [?ev]"] obtain n where n: "n \<le> length as"
      "snd (snd (run_afterwares as (Suc j) a r (s', t @ [?ev])))
         = (t @ [?ev]) @ map (\<lambda>k. Afterware_called k a) [Suc j..<Suc j + n]"
      "fst (run_afterwares as (Suc j) a r (s', t @ [?ev])) = Resolved () \<longrightarrow> n = length as"
      by blast
    have run: "run_afterwares (f # as) j a r (s, t)
             = run_afterwares as (Suc j) a r (s', t @ [?ev])"
      using c Resolved by (simp add: await_def)
    have "(t @ [?ev]) @ map (\<lambda>k. Afterware_called k a) [Suc j..<Suc j + n]
        = t @ map (\<lambda>k. Afterware_called k a) [j..<j + Suc n]"
      unfolding upt_shift[symmetric] by simp
    with n run show ?thesis
      by (intro exI[of _ "Suc n"]) simp
  next
    case (Rejected e)
    then have "run_afterwares (f # as) j a r (s, t) = (Rejected e, s', t @ [?ev])"
      using c by (simp add: await_def)
    then show ?thesis by (intro exI[of _ "Suc 0"]) (simp add: upt_conv_Cons)
  next
    case Pending
    then have "run_afterwares (f # as) j a r (s, t) = (Pending, s', t @ [?ev])"
      using c by (simp add: await_def)
    then show ?thesis by (intro exI[of _ "Suc 0"]) (simp add: upt_conv_Cons)
  qed
qed

lemma run_middlewares_append_resolved:
  "run_middlewares ms1 i info a (s, t) = (Resolved (), s1, t1) \<Longrightarrow>
   run_middlewares (ms1 @ ms2) i info a (s, t)
     = run_middlewares ms2 (i + length ms1) info a (s1, t1)"
proof (induction ms1 arbitrary: i s t)
  case Nil
  then show ?case by (simp add: resolve_def)
next
  case (Cons m ms)
  obtain r s' where m: "m info a s = (r, s')" by (cases "m info a s")
  let ?ev = "Middleware_called i info a"
  have c: "call ?ev (m info a) (s, t) = (r, s', t @ [?ev])" using m by (rule call_eq)
  show ?case
  proof (cases r)
    case (Resolved u)
    with c Cons.prems
    have "run_middlewares ms (Suc i) info a (s', t @ [?ev]) = (Resolved (), s1, t1)"
      by (simp add: await_def)
    from Cons.IH[OF this] c Resolved show ?thesis by (simp add: await_def)
  next
    case (Rejected e)
    with c Cons.prems show ?thesis by (simp add: await_def)
  next
    case Pending
    with c Cons.prems show ?thesis by (simp add: await_def)
  qed
qed

lemma prefix_map_upt:
  "n \<le> N \<Longrightarrow> prefix (map f [0..<n]) (map f [0..<N] @ rest)"
proof -
  assume "n \<le> N"
  then have "[0..<N] = [0..<n] @ [n..<N]"
    using upt_add_eq_append[of 0 n "N - n"] by simp
  then have "map f [0..<N] @ rest = map f [0..<n] @ (map f [n..<N] @ rest)" by simp
  then show ?thesis by (simp only: prefixI)
qed

lemma response_run:
  "\<exists>out. response r (s, t) = (out, s, t @ [Decoder_called]) \<and>
     (out = Pending \<or> (\<exists>e. out = Rejected e) \<or>
      out = Resolved \<lparr>data = (if body r \<noteq> None then (case json r of Resolved v \<Rightarrow> v) else VObj []),
                       requestResponse = ResponseSansJson.truncate r\<rparr>)"
  by (cases "json r") (auto simp: response_def await_def call_def resolve_def)

lemma request_trace:
  "\<exists>tr. snd (snd (request c p (Some a) (s, t))) = t @ tr \<and>
        prefix tr (full_order c (baseUrl c @ p) a) \<and>
        ((\<exists>env. fst (request c p (Some a) (s, t)) = Resolved env)
           \<longrightarrow> tr = full_order c (baseUrl c @ p) a)"
proof -
  let ?info = "baseUrl c @ p"
  let ?N = "length (middlewares c)"
  let ?K = "length (afterwares c)"
  let ?mw = "\<lambda>k. Middleware_called k ?info a"
  let ?aw = "\<lambda>k. Afterware_called k a"
  let ?rest = "\<lambda>r. await (call (Transport_called ?info a) (fetcher c ?info a))
                  (\<lambda>requestResponse.
                     await (run_afterwares (afterwares c) 0 a requestResponse)
                       (\<lambda>_. response requestResponse))"
  have req: "request c p (Some a) (s, t)
           = await (run_middlewares (middlewares c) 0 ?info a) ?rest (s, t)"
    by (simp add: request_def or_fresh_def Let_def)
  obtain r1 s1 t1 where M: "run_middlewares (middlewares c) 0 ?info a (s, t) = (r1, s1, t1)"
    by (cases "run_middlewares (middlewares c) 0 ?info a (s, t)") auto
  from run_middlewares_trace[of "middlewares c" 0 ?info a s t] M
  obtain n1 where n1: "n1 \<le> ?N" "t1 = t @ map ?mw [0..<n1]" "r1 = Resolved () \<longrightarrow> n1 = ?N"
    by auto
  have pre1: "prefix (map ?mw [0..<n1]) (full_order c ?info a)"
    unfolding full_order_def using n1(1) by (rule prefix_map_upt)
  show ?thesis
  proof (cases r1)
    case (Rejected e)
    with req M have "request c p (Some a) (s, t) = (Rejected e, s1, t1)"
      by (simp add: await_def)
    with n1 pre1 show ?thesis by (intro exI[of _ "map ?mw [0..<n1]"]) simp
  next
    case Pending
    with req M have "request c p (Some a) (s, t) = (Pending, s1, t1)"
      by (simp add: await_def)
    with n1 pre1 show ?thesis by (intro exI[of _ "map ?mw [0..<n1]"]) simp
  next
    case (Resolved u)
    with n1 have t1: "t1 = t @ map ?mw [0..<?N]" by simp
    obtain r2 s2 where F: "fetcher c ?info a s1 = (r2, s2)" by (cases "fetcher c ?info a s1")
    let ?t2 = "t1 @ [Transport_called ?info a]"
    have C: "call (Transport_called ?info a) (fetcher c ?info a) (s1, t1) = (r2, s2, ?t2)"
      using F by (rule call_eq)
    have pre2: "prefix (map ?mw [0..<?N] @ [Transport_called ?info a]) (full_order c ?info a)"
      by (simp add: full_order_def)
    show ?thesis
    proof (cases r2)
      case (Rejected e)
      with req M Resolved C have "request c p (Some a) (s, t) = (Rejected e, s2, ?t2)"
        by (simp add: await_def)
      with t1 pre2 show ?thesis
        by (intro exI[of _ "map ?mw [0..<?N] @ [Transport_called ?info a]"]) simp
    next
      case Pending
      with req M Resolved C have "request c p (Some a) (s, t) = (Pending, s2, ?t2)"
        by (simp add: await_def)
      with t1 pre2 show ?thesis
        by (intro exI[of _ "map ?mw [0..<?N] @ [Transport_called ?info a]"]) simp
    next
      case resp: (Resolved rr)
      obtain r3 s3 t3 where A: "run_afterwares (afterwares c) 0 a rr (s2, ?t2) = (r3, s3, t3)"
        by (cases "run_afterwares (afterwares c) 0 a rr (s2, ?t2)") auto
      from run_afterwares_trace[of "afterwares c" 0 a rr s2 ?t2] A
      obtain n3 where n3: "n3 \<le> ?K" "t3 = ?t2 @ map ?aw [0..<n3]" "r3 = Resolved () \<longrightarrow> n3 = ?K"
        by auto
      have step: "request c p (Some a) (s, t)
                = await (run_afterwares (afterwares c) 0 a rr) (\<lambda>_. response rr) (s2, ?t2)"
        using req M Resolved C resp by (simp add: await_def)
      have pre3: "prefix (map ?mw [0..<?N] @ [Transport_called ?info a] @ map ?aw [0..<n3])
                    (full_order c ?info a)"
        unfolding full_order_def using prefix_map_upt[OF n3(1), of ?aw "[Decoder_called]"]
        by simp
      show ?thesis
      proof (cases r3)
        case (Rejected e)
        with step A have "request c p (Some a) (s, t) = (Rejected e, s3, t3)"
          by (simp add: await_def)
        with t1 n3 pre3 show ?thesis
          by (intro exI[of _ "map ?mw [0..<?N] @ [Transport_called ?info a] @ map ?aw [0..<n3]"])
             simp
      next
        case Pending
        with step A have "request c p (Some a) (s, t) = (Pending, s3, t3)"
          by (simp add: await_def)
        with t1 n3 pre3 show ?thesis
          by (intro exI[of _ "map ?mw [0..<?N] @ [Transport_called ?info a] @ map ?aw [0..<n3]"])
             simp
      next
        case fin: (Resolved u3)
        with n3 have t3: "t3 = ?t2 @ map ?aw [0..<?K]" by simp
        obtain out where out: "response rr (s3, t3) = (out, s3, t3 @ [Decoder_called])"
          using response_run[of rr s3 t3] by blast
        from step A fin out
        have "request c p (Some a) (s, t) = (out, s3, t3 @ [Decoder_called])"
          by (simp add: await_def)
        with t1 t3 show ?thesis
          by (intro exI[of _ "full_order c ?info a"]) (simp add: full_order_def)
      qed
    qed
  qed
qed

subsection \<open>The loops of the pipeline run the hooks in order\<close>

text \<open>
  Both loops of \<^verbatim>\<open>#request\<close> run their hooks as \<open>hooks_ran\<close> says, and \<open>hooks_ran\<close>
  leaves no choice: the number of hooks run, the outcome and the store are determined.
\<close>

lemma if_then_holds: "P \<Longrightarrow> A \<Longrightarrow> if P then A else B"
  by simp

lemma if_else_holds: "\<not> P \<Longrightarrow> B \<Longrightarrow> if P then A else B"
  by simp

lemma case_Resolved_holds:
  "rout = Resolved r \<Longrightarrow> A r \<Longrightarrow> (case rout of Resolved r \<Rightarrow> A r | Rejected e \<Rightarrow> B e | Pending \<Rightarrow> C)"
  by simp

lemma case_Rejected_holds:
  "rout = Rejected e \<Longrightarrow> B e \<Longrightarrow> (case rout of Resolved r \<Rightarrow> A r | Rejected e \<Rightarrow> B e | Pending \<Rightarrow> C)"
  by simp

lemma case_Pending_holds:
  "rout = Pending \<Longrightarrow> C \<Longrightarrow> (case rout of Resolved r \<Rightarrow> A r | Rejected e \<Rightarrow> B e | Pending \<Rightarrow> C)"
  by simp

lemma last_of_length: "length xs = Suc k \<Longrightarrow> last xs = xs ! k"
  using last_conv_nth[of xs] by (cases xs) auto

lemma run_middlewares_actions:
  "run_middlewares ms i info a
     = run_actions (\<lambda>k. Middleware_called k info a) (map (\<lambda>m. m info a) ms) i"
  by (induction ms arbitrary: i) simp_all

lemma run_afterwares_actions:
  "run_afterwares as j a r
     = run_actions (\<lambda>k. Afterware_called k a) (map (\<lambda>f. f a r) as) j"
  by (induction as arbitrary: j) simp_all

lemma hooks_ran_Nil: "hooks_ran [] s 0 (Resolved ()) s"
  by (auto simp: hooks_ran_def threaded_def intro!: exI[of _ "[s]"])

lemma hooks_ran_stop:
  assumes "f s = (out, s1)" "out \<noteq> Resolved ()"
  shows "hooks_ran (f # fs) s 0 out s1"
  using assms by (auto simp: hooks_ran_def threaded_def intro!: exI[of _ "[s]"])

lemma hooks_ran_step:
  assumes f: "f s = (Resolved (), s1)" and rest: "hooks_ran fs s1 k out sf"
  shows "hooks_ran (f # fs) s (Suc k) out sf"
proof -
  from rest obtain ss where ss: "k \<le> length fs" "threaded (take k fs) ss" "hd ss = s1"
    "if k < length fs then (fs ! k) (last ss) = (out, sf) \<and> out \<noteq> Resolved ()
     else out = Resolved () \<and> sf = last ss"
    unfolding hooks_ran_def by blast
  from ss(2) have len: "length ss = Suc (length (take k fs))"
    and th: "\<forall>i < length (take k fs). (take k fs ! i) (ss ! i) = (Resolved (), ss ! Suc i)"
    by (simp_all add: threaded_def)
  from len have ne: "ss \<noteq> []" by auto
  with ss(3) have s0: "ss ! 0 = s1" by (simp add: hd_conv_nth)
  have "threaded (take (Suc k) (f # fs)) (s # ss)"
    unfolding threaded_def
  proof (intro conjI allI impI)
    show "length (s # ss) = Suc (length (take (Suc k) (f # fs)))" using len by simp
  next
    fix i assume i: "i < length (take (Suc k) (f # fs))"
    show "(take (Suc k) (f # fs) ! i) ((s # ss) ! i) = (Resolved (), (s # ss) ! Suc i)"
    proof (cases i)
      case 0
      then show ?thesis using f s0 by simp
    next
      case (Suc j)
      with i have "j < length (take k fs)" by simp
      with th Suc show ?thesis by simp
    qed
  qed
  moreover have "last (s # ss) = last ss" using ne by simp
  ultimately show ?thesis
    unfolding hooks_ran_def using ss(1,4) by (intro exI[of _ "s # ss"]) auto
qed

lemma run_actions_ran:
  "\<exists>k out sf. hooks_ran fs s k out sf
     \<and> run_actions ev fs i (s, t)
         = (out, sf, t @ map ev [i..<i + (if out = Resolved () then k else Suc k)])"
proof (induction fs arbitrary: i s t)
  case Nil
  show ?case using hooks_ran_Nil[of s] by (intro exI[of _ 0] exI[of _ "Resolved ()"] exI[of _ s])
      (simp add: resolve_def)
next
  case (Cons f fs)
  obtain r s1 where f: "f s = (r, s1)" by (cases "f s")
  show ?case
  proof (cases "r = Resolved ()")
    case True
    from Cons.IH[of s1 "Suc i" "t @ [ev i]"] obtain k out sf where
      ih: "hooks_ran fs s1 k out sf"
      "run_actions ev fs (Suc i) (s1, t @ [ev i])
         = (out, sf, (t @ [ev i]) @ map ev [Suc i..<Suc i + (if out = Resolved () then k else Suc k)])"
      by blast
    from f True have ran: "hooks_ran (f # fs) s (Suc k) out sf"
      using hooks_ran_step[OF _ ih(1)] by simp
    have run: "run_actions ev (f # fs) i (s, t) = run_actions ev fs (Suc i) (s1, t @ [ev i])"
      using f True by (simp add: await_def call_def)
    have "(t @ [ev i]) @ map ev [Suc i..<Suc i + n] = t @ map ev [i..<i + Suc n]" for n
      unfolding upt_shift[symmetric] by simp
    with ih(2) run ran show ?thesis
      by (intro exI[of _ "Suc k"] exI[of _ out] exI[of _ sf]) (auto split: if_splits)
  next
    case False
    with f have ran: "hooks_ran (f # fs) s 0 r s1" by (rule hooks_ran_stop)
    have "run_actions ev (f # fs) i (s, t) = (r, s1, t @ [ev i])"
      using f False by (cases r) (simp_all add: await_def call_def)
    with ran False show ?thesis
      by (intro exI[of _ 0] exI[of _ r] exI[of _ s1]) (simp add: upt_conv_Cons)
  qed
qed

lemma hooks_ran_resolved: "hooks_ran fs s k (Resolved ()) sf \<Longrightarrow> k = length fs"
  by (auto simp: hooks_ran_def split: if_splits)

lemma hooks_ran_unresolved: "hooks_ran fs s k out sf \<Longrightarrow> out \<noteq> Resolved () \<Longrightarrow> k < length fs"
  by (auto simp: hooks_ran_def split: if_splits)

lemma take_full_order_middlewares:
  "m \<le> length (middlewares c) \<Longrightarrow>
   take m (full_order c info a) = map (\<lambda>i. Middleware_called i info a) [0..<m]"
  by (simp add: full_order_def take_map)

lemma take_full_order_transport:
  "take (Suc (length (middlewares c))) (full_order c info a)
     = map (\<lambda>i. Middleware_called i info a) [0..<length (middlewares c)]
       @ [Transport_called info a]"
  by (simp add: full_order_def)

lemma take_full_order_afterwares:
  "j \<le> length (afterwares c) \<Longrightarrow>
   take (Suc (length (middlewares c)) + j) (full_order c info a)
     = map (\<lambda>i. Middleware_called i info a) [0..<length (middlewares c)]
       @ [Transport_called info a] @ map (\<lambda>i. Afterware_called i a) [0..<j]"
  by (simp add: full_order_def take_map)

lemma response_trace:
  "response r (s, t) = (fst (response r (s, [])), s, t @ [Decoder_called])"
  by (cases "json r") (simp_all add: response_def await_def call_def resolve_def)

lemma halted_simps [simp]:
  "halted (Rejected e) = Rejected e" "halted Pending = Pending"
  by (simp_all add: halted_def)

lemma threaded_states_agree:
  assumes "threaded (take k fs) ss" "threaded (take k' fs) ss'" "hd ss = hd ss'"
    and "k \<le> length fs" "k' \<le> length fs"
  shows "i \<le> k \<Longrightarrow> i \<le> k' \<Longrightarrow> ss ! i = ss' ! i"
proof (induction i)
  case 0
  from assms(1,2) have "ss \<noteq> []" "ss' \<noteq> []" by (auto simp: threaded_def)
  with assms(3) show ?case by (simp add: hd_conv_nth)
next
  case (Suc i)
  then have eq: "ss ! i = ss' ! i" by simp
  from Suc.prems assms(4,5) have i: "i < length (take k fs)" "i < length (take k' fs)" by simp_all
  from i(1) assms(1) have "(take k fs ! i) (ss ! i) = (Resolved (), ss ! Suc i)"
    by (simp add: threaded_def)
  moreover from i(2) assms(2) have "(take k' fs ! i) (ss' ! i) = (Resolved (), ss' ! Suc i)"
    by (simp add: threaded_def)
  moreover from Suc.prems have "take k fs ! i = fs ! i" "take k' fs ! i = fs ! i" by simp_all
  ultimately show ?case using eq by simp
qed

lemma hooks_ran_index_le:
  assumes "hooks_ran fs s k out sf" "hooks_ran fs s k' out' sf'"
  shows "k' \<le> k"
proof (rule ccontr)
  assume "\<not> k' \<le> k"
  then have lt: "k < k'" by simp
  from assms obtain ss ss' where
    a: "k \<le> length fs" "threaded (take k fs) ss" "hd ss = s"
       "if k < length fs then (fs ! k) (last ss) = (out, sf) \<and> out \<noteq> Resolved ()
        else out = Resolved () \<and> sf = last ss"
    and b: "k' \<le> length fs" "threaded (take k' fs) ss'" "hd ss' = s"
    unfolding hooks_ran_def by blast
  from lt b(1) have k: "k < length fs" by simp
  with a(4) have stop: "(fs ! k) (last ss) = (out, sf)" "out \<noteq> Resolved ()" by simp_all
  from a(2) a(1) have "length ss = Suc k" by (simp add: threaded_def)
  then have "last ss = ss ! k" by (rule last_of_length)
  also have "ss ! k = ss' ! k"
    using threaded_states_agree[OF a(2) b(2) _ a(1) b(1), of k] a(3) b(3) lt by simp
  finally have l: "last ss = ss' ! k" .
  from lt b(1) have "k < length (take k' fs)" by simp
  with b(2) have "(take k' fs ! k) (ss' ! k) = (Resolved (), ss' ! Suc k)"
    by (simp add: threaded_def)
  with lt have "(fs ! k) (ss' ! k) = (Resolved (), ss' ! Suc k)" by simp
  with stop l show False by simp
qed

lemma hooks_ran_unique:
  assumes "hooks_ran fs s k out sf" "hooks_ran fs s k' out' sf'"
  shows "k = k' \<and> out = out' \<and> sf = sf'"
proof -
  from hooks_ran_index_le[OF assms] hooks_ran_index_le[OF assms(2,1)] have kk: "k = k'" by simp
  from assms obtain ss ss' where
    a: "k \<le> length fs" "threaded (take k fs) ss" "hd ss = s"
       "if k < length fs then (fs ! k) (last ss) = (out, sf) \<and> out \<noteq> Resolved ()
        else out = Resolved () \<and> sf = last ss"
    and b: "k' \<le> length fs" "threaded (take k' fs) ss'" "hd ss' = s"
       "if k' < length fs then (fs ! k') (last ss') = (out', sf') \<and> out' \<noteq> Resolved ()
        else out' = Resolved () \<and> sf' = last ss'"
    unfolding hooks_ran_def by blast
  from a(1,2) b(1,2) have "length ss = Suc k" "length ss' = Suc k'" by (simp_all add: threaded_def)
  then have "last ss = ss ! k" "last ss' = ss' ! k'" by (simp_all add: last_of_length)
  moreover have "ss ! k = ss' ! k"
    using threaded_states_agree[OF a(2) b(2) _ a(1) b(1), of k] a(3) b(3) kk by simp
  ultimately have "last ss = last ss'" using kk by simp
  with a(4) b(4) kk show ?thesis by (auto split: if_splits)
qed

lemma request_pipeline_run:
  "pipeline_run c (baseUrl c @ p) a s t (request c p (Some a) (s, t))"
proof -
  let ?info = "baseUrl c @ p"
  let ?n = "length (middlewares c)"
  let ?mw = "\<lambda>k. Middleware_called k ?info a"
  let ?aw = "\<lambda>k. Afterware_called k a"
  let ?mws = "map (\<lambda>m. m ?info a) (middlewares c)"
  let ?full = "full_order c ?info a"
  let ?res = "request c p (Some a) (s, t)"
  from run_actions_ran[of ?mws s ?mw 0 t] obtain k out1 s1 where
    ran1: "hooks_ran ?mws s k out1 s1"
    and run0: "run_actions ?mw ?mws 0 (s, t)
         = (out1, s1, t @ map ?mw [0..<0 + (if out1 = Resolved () then k else Suc k)])"
    by blast
  from run0 have run1: "run_middlewares (middlewares c) 0 ?info a (s, t)
         = (out1, s1, t @ map ?mw [0..<(if out1 = Resolved () then k else Suc k)])"
    by (simp only: run_middlewares_actions add_0)
  have req: "?res
      = await (run_middlewares (middlewares c) 0 ?info a)
          (\<lambda>_. await (call (Transport_called ?info a) (fetcher c ?info a))
             (\<lambda>requestResponse. await (run_afterwares (afterwares c) 0 a requestResponse)
                (\<lambda>_. response requestResponse))) (s, t)"
    by (simp add: request_def or_fresh_def Let_def)
  show ?thesis
  proof (cases "out1 = Resolved ()")
    case False
    from hooks_ran_unresolved[OF ran1 False] have "Suc k \<le> ?n" by simp
    then have tk: "take (Suc k) ?full = map ?mw [0..<Suc k]"
      by (rule take_full_order_middlewares)
    from False run1 have run1': "run_middlewares (middlewares c) 0 ?info a (s, t)
         = (out1, s1, t @ map ?mw [0..<Suc k])" by simp
    have "?res = (halted out1, s1, t @ map ?mw [0..<Suc k])"
    proof (cases out1)
      case (Resolved u)
      with False show ?thesis by simp
    next
      case (Rejected e)
      with req run1' show ?thesis by (simp add: await_def)
    next
      case Pending
      with req run1' show ?thesis by (simp add: await_def)
    qed
    with tk have r: "?res = (halted out1, s1, t @ take (Suc k) ?full)" by simp
    show ?thesis
      unfolding pipeline_run_def
    proof (intro exI[of _ k] exI[of _ out1] exI[of _ s1] conjI)
      show "hooks_ran ?mws s k out1 s1" by (rule ran1)
    next
      from False r show "if out1 \<noteq> Resolved ()
        then ?res = (halted out1, s1, t @ take (Suc k) ?full)
        else \<exists>rout s2. fetcher c ?info a s1 = (rout, s2)
              \<and> (case rout of
                    Rejected e \<Rightarrow> ?res = (Rejected e, s2, t @ take (Suc ?n) ?full)
                  | Pending \<Rightarrow> ?res = (Pending, s2, t @ take (Suc ?n) ?full)
                  | Resolved r \<Rightarrow>
                      (\<exists>j out3 s3.
                         hooks_ran (map (\<lambda>f. f a r) (afterwares c)) s2 j out3 s3
                         \<and> (if out3 \<noteq> Resolved ()
                             then ?res = (halted out3, s3, t @ take (Suc ?n + Suc j) ?full)
                             else ?res = (fst (response r (s3, [])), s3, t @ ?full))))"
        by (rule if_then_holds)
    qed
  next
    case True
    with ran1 have k: "k = ?n" using hooks_ran_resolved[of ?mws s k s1] by simp
    let ?t1 = "t @ map ?mw [0..<?n]"
    from run1 True k have run1': "run_middlewares (middlewares c) 0 ?info a (s, t)
         = (Resolved (), s1, ?t1)" by simp
    obtain rout s2 where F: "fetcher c ?info a s1 = (rout, s2)" by (cases "fetcher c ?info a s1")
    let ?t2 = "?t1 @ [Transport_called ?info a]"
    have t2: "t @ take (Suc ?n) ?full = ?t2" by (simp add: take_full_order_transport)
    have C: "call (Transport_called ?info a) (fetcher c ?info a) (s1, ?t1) = (rout, s2, ?t2)"
      using F by (rule call_eq)
    let ?after = "\<lambda>r. \<exists>j out3 s3.
                         hooks_ran (map (\<lambda>f. f a r) (afterwares c)) s2 j out3 s3
                         \<and> (if out3 \<noteq> Resolved ()
                             then ?res = (halted out3, s3, t @ take (Suc ?n + Suc j) ?full)
                             else ?res = (fst (response r (s3, [])), s3, t @ ?full))"
    have cs: "case rout of
              Rejected e \<Rightarrow> ?res = (Rejected e, s2, t @ take (Suc ?n) ?full)
            | Pending \<Rightarrow> ?res = (Pending, s2, t @ take (Suc ?n) ?full)
            | Resolved r \<Rightarrow> ?after r"
    proof (cases rout)
      case (Rejected e)
      from req run1' C Rejected have "?res = (Rejected e, s2, ?t2)"
        by (simp add: await_def)
      then have "?res = (Rejected e, s2, t @ take (Suc ?n) ?full)" by (simp only: t2)
      with Rejected show ?thesis by (rule case_Rejected_holds)
    next
      case Pending
      from req run1' C Pending have "?res = (Pending, s2, ?t2)"
        by (simp add: await_def)
      then have "?res = (Pending, s2, t @ take (Suc ?n) ?full)" by (simp only: t2)
      with Pending show ?thesis by (rule case_Pending_holds)
    next
      case (Resolved r)
      let ?aws = "map (\<lambda>f. f a r) (afterwares c)"
      from run_actions_ran[of ?aws s2 ?aw 0 ?t2] obtain j out3 s3 where
        ran3: "hooks_ran ?aws s2 j out3 s3"
        and run30: "run_actions ?aw ?aws 0 (s2, ?t2)
             = (out3, s3, ?t2 @ map ?aw [0..<0 + (if out3 = Resolved () then j else Suc j)])"
        by blast
      from run30 have run3: "run_afterwares (afterwares c) 0 a r (s2, ?t2)
             = (out3, s3, ?t2 @ map ?aw [0..<(if out3 = Resolved () then j else Suc j)])"
        by (simp only: run_afterwares_actions add_0)
      have step: "?res = await (run_afterwares (afterwares c) 0 a r) (\<lambda>_. response r) (s2, ?t2)"
        using req run1' C Resolved by (simp add: await_def)
      have fin: "if out3 \<noteq> Resolved ()
                 then ?res = (halted out3, s3, t @ take (Suc ?n + Suc j) ?full)
                 else ?res = (fst (response r (s3, [])), s3, t @ ?full)"
      proof (cases "out3 = Resolved ()")
        case False
        from hooks_ran_unresolved[OF ran3 False] have "Suc j \<le> length (afterwares c)" by simp
        from take_full_order_afterwares[OF this, of ?info a]
        have tk: "t @ take (Suc ?n + Suc j) ?full = ?t2 @ map ?aw [0..<Suc j]" by simp
        from False run3 have run3': "run_afterwares (afterwares c) 0 a r (s2, ?t2)
             = (out3, s3, ?t2 @ map ?aw [0..<Suc j])" by simp
        have "?res = (halted out3, s3, ?t2 @ map ?aw [0..<Suc j])"
        proof (cases out3)
          case (Resolved u)
          with False show ?thesis by simp
        next
          case (Rejected e)
          with step run3' show ?thesis by (simp add: await_def)
        next
          case Pending
          with step run3' show ?thesis by (simp add: await_def)
        qed
        then have "?res = (halted out3, s3, t @ take (Suc ?n + Suc j) ?full)" by (simp only: tk)
        with False show ?thesis by (rule if_then_holds)
      next
        case True
        with ran3 have j: "j = length (afterwares c)"
          using hooks_ran_resolved[of ?aws s2 j s3] by simp
        let ?t3 = "?t2 @ map ?aw [0..<length (afterwares c)]"
        from run3 True j have "run_afterwares (afterwares c) 0 a r (s2, ?t2)
             = (Resolved (), s3, ?t3)" by simp
        with step have "?res = response r (s3, ?t3)"
          by (simp add: await_def)
        also have "\<dots> = (fst (response r (s3, [])), s3, ?t3 @ [Decoder_called])"
          by (rule response_trace)
        also have "?t3 @ [Decoder_called] = t @ ?full" by (simp add: full_order_def)
        finally have e: "?res = (fst (response r (s3, [])), s3, t @ ?full)" .
        from True have "\<not> out3 \<noteq> Resolved ()" by simp
        from this e show ?thesis by (rule if_else_holds)
      qed
      from ran3 fin have "?after r" by (intro exI[of _ j] exI[of _ out3] exI[of _ s3] conjI)
      with Resolved show ?thesis by (rule case_Resolved_holds)
    qed
    from True have nn: "\<not> out1 \<noteq> Resolved ()" by simp
    show ?thesis
      unfolding pipeline_run_def
    proof (intro exI[of _ k] exI[of _ out1] exI[of _ s1] conjI)
      show "hooks_ran ?mws s k out1 s1" by (rule ran1)
    next
      from F cs have "\<exists>rout s2. fetcher c ?info a s1 = (rout, s2)
              \<and> (case rout of
                    Rejected e \<Rightarrow> ?res = (Rejected e, s2, t @ take (Suc ?n) ?full)
                  | Pending \<Rightarrow> ?res = (Pending, s2, t @ take (Suc ?n) ?full)
                  | Resolved r \<Rightarrow>
                      (\<exists>j out3 s3.
                         hooks_ran (map (\<lambda>f. f a r) (afterwares c)) s2 j out3 s3
                         \<and> (if out3 \<noteq> Resolved ()
                             then ?res = (halted out3, s3, t @ take (Suc ?n + Suc j) ?full)
                             else ?res = (fst (response r (s3, [])), s3, t @ ?full))))"
        by (intro exI[of _ rout] exI[of _ s2] conjI)
      from nn this show "if out1 \<noteq> Resolved ()
        then ?res = (halted out1, s1, t @ take (Suc k) ?full)
        else \<exists>rout s2. fetcher c ?info a s1 = (rout, s2)
              \<and> (case rout of
                    Rejected e \<Rightarrow> ?res = (Rejected e, s2, t @ take (Suc ?n) ?full)
                  | Pending \<Rightarrow> ?res = (Pending, s2, t @ take (Suc ?n) ?full)
                  | Resolved r \<Rightarrow>
                      (\<exists>j out3 s3.
                         hooks_ran (map (\<lambda>f. f a r) (afterwares c)) s2 j out3 s3
                         \<and> (if out3 \<noteq> Resolved ()
                             then ?res = (halted out3, s3, t @ take (Suc ?n + Suc j) ?full)
                             else ?res = (fst (response r (s3, [])), s3, t @ ?full))))"
        by (rule if_else_holds)
    qed
  qed
qed

subsection \<open>Hooks that leave a descriptor alone\<close>




subsection \<open>The descriptor a verb method builds\<close>

lemma verb_init_Some:
  "verb_init v urlPath opts (Some a) s =
     Inr (url_text urlPath opts, a,
          s\<lparr>heap := (heap s)(a := (heap s a)
            \<lparr>init_method := Some (verb_name v),
             init_headers :=
               Some (merged_headers (contentType (built_body opts)) (init_headers (heap s a))),
             init_body :=
               (if v = Get then init_body (heap s a) else requestBody (built_body opts))\<rparr>)\<rparr>)"
proof -
  obtain sb where sb: "serializeRequestBody (content opts) = Inr sb"
    using serializeRequestBody_returns by blast
  obtain sp where sp: "serializePathParams urlPath (path opts) = Inr sp"
    using serializePathParams_returns by blast
  obtain sq where sq: "serializeQueryParams (query opts) = Inr sq"
    using serializeQueryParams_returns by blast
  show ?thesis
    by (cases v)
       (simp_all add: get_init_def put_init_def post_init_def delete_init_def and_then_def sb sp sq
          url_text_def built_body_def empty_init_def or_fresh_def assign_def caller_headers_def
          Let_def)
qed

lemma verb_init_None:
  "verb_init v urlPath opts None s =
     Inr (url_text urlPath opts, next_free s,
          s\<lparr>heap := (heap s)(next_free s := empty_init
              \<lparr>init_method := Some (verb_name v),
               init_headers := Some (merged_headers (contentType (built_body opts)) None),
               init_body := (if v = Get then None else requestBody (built_body opts))\<rparr>),
            next_free := Suc (next_free s)\<rparr>)"
proof -
  obtain sb where sb: "serializeRequestBody (content opts) = Inr sb"
    using serializeRequestBody_returns by blast
  obtain sp where sp: "serializePathParams urlPath (path opts) = Inr sp"
    using serializePathParams_returns by blast
  obtain sq where sq: "serializeQueryParams (query opts) = Inr sq"
    using serializeQueryParams_returns by blast
  show ?thesis
    by (cases v)
       (simp_all add: get_init_def put_init_def post_init_def delete_init_def and_then_def sb sp sq
          url_text_def built_body_def empty_init_def or_fresh_def assign_def caller_headers_def
          alloc_def Let_def)
qed

lemma verb_method_eq:
  "verb_method v c urlPath opts requestInit = return_request c (verb_init v urlPath opts requestInit)"
  by (cases v) (simp_all add: get_def put_def post_def delete_def)

lemma verb_init_returns:
  "\<exists>a s'. verb_init v urlPath opts requestInit s = Inr (url_text urlPath opts, a, s')"
  by (cases requestInit) (simp_all add: verb_init_Some verb_init_None)

lemma body_verbs_attach:
  assumes "v \<noteq> Get" "verb_init v urlPath opts requestInit s = Inr (p, a, s')"
  shows "init_body (heap s' a) = requestBody (built_body opts)"
  using assms by (cases requestInit) (auto simp: verb_init_Some verb_init_None)

lemma get_without_overrides:
  assumes "verb_init Get urlPath opts None s = Inr (p, a, s')"
  shows "init_body (heap s' a) = None"
    and "init_headers (heap s' a)
           = Some (HRecord [''Content-Type'' \<mapsto> VStr (contentType (built_body opts))])"
  using assms verb_init_None[of Get urlPath opts s]
  by (auto simp: empty_init_def merged_headers_def spread_def simp del: verb_init.simps)

lemma merged_headers_record:
  "merged_headers ct (Some (HRecord m))
     = HRecord (\<lambda>k. case m k of
                       Some v \<Rightarrow> Some v
                     | None \<Rightarrow> (if k = ''Content-Type'' then Some (VStr ct) else None))"
  by (auto simp: merged_headers_def spread_def map_add_def split: option.splits)

section \<open>The claims\<close>

subsection \<open>C1: the order of the pipeline\<close>

text \<open>
  Claim C1. A call through any of the four verb methods ends as \<open>pipeline_run\<close> says:
  the registered middlewares run in registration order, each given the request info and
  the descriptor, the first on the store the verb method left and each next one on the
  store its predecessor left once it had resolved; then the transport, on the store the
  last middleware left; then the registered afterwares in registration order, each next
  one on the store its predecessor left; then the decoder. The call stops before the end
  only at a hook or a transport that did not resolve, and then ends as that one did.
  The calls recorded are accordingly an initial segment of \<open>full_order\<close>, and all of it
  when the call resolves.
\<close>

theorem verb_call_order:
  "\<exists>a s' tr.
     verb_init v urlPath opts requestInit s = Inr (url_text urlPath opts, a, s')
     \<and> pipeline_run c (baseUrl c @ url_text urlPath opts) a s' t
          (verb_method v c urlPath opts requestInit (s, t))
     \<and> snd (snd (verb_method v c urlPath opts requestInit (s, t))) = t @ tr
     \<and> prefix tr (full_order c (baseUrl c @ url_text urlPath opts) a)
     \<and> ((\<exists>env. fst (verb_method v c urlPath opts requestInit (s, t)) = Resolved env)
          \<longrightarrow> tr = full_order c (baseUrl c @ url_text urlPath opts) a)"
proof -
  obtain a s' where i: "verb_init v urlPath opts requestInit s = Inr (url_text urlPath opts, a, s')"
    using verb_init_returns by blast
  then have m: "verb_method v c urlPath opts requestInit (s, t)
              = request c (url_text urlPath opts) (Some a) (s', t)"
    by (simp add: verb_method_eq return_request_def)
  from request_trace[of c "url_text urlPath opts" a s' t]
  obtain tr where tr: "snd (snd (request c (url_text urlPath opts) (Some a) (s', t))) = t @ tr"
    "prefix tr (full_order c (baseUrl c @ url_text urlPath opts) a)"
    "(\<exists>env. fst (request c (url_text urlPath opts) (Some a) (s', t)) = Resolved env)
       \<longrightarrow> tr = full_order c (baseUrl c @ url_text urlPath opts) a"
    by blast
  have run: "pipeline_run c (baseUrl c @ url_text urlPath opts) a s' t
          (verb_method v c urlPath opts requestInit (s, t))"
    unfolding m by (rule request_pipeline_run)
  from i run m tr show ?thesis
    by (intro exI[of _ a] exI[of _ s'] exI[of _ tr] conjI) simp_all
qed

text \<open>
  The example of the specification: middlewares \<open>m1, m2\<close> and afterwares \<open>a1, a2\<close>
  that write their names into a log. The log reads \<open>m1, m2, transport, a1, a2\<close>; the two
  middlewares ran as \<open>hooks_ran\<close> says, \<open>m2\<close> on the store \<open>m1\<close> left.
\<close>

theorem verb_call_order_witness:
  "(\<exists>env. fst (verb_method Get example_client ''/users/{id}''
             \<lparr>content = None, path = Some [(''id'', VNum (Number 7))], query = None\<rparr> None
             (empty_store, [])) = Resolved env)
   \<and> snd (snd (verb_method Get example_client ''/users/{id}''
             \<lparr>content = None, path = Some [(''id'', VNum (Number 7))], query = None\<rparr> None
             (empty_store, [])))
       = [Middleware_called 0 ''https://api/users/7'' 1,
          Middleware_called 1 ''https://api/users/7'' 1,
          Transport_called ''https://api/users/7'' 1,
          Afterware_called 0 1, Afterware_called 1 1, Decoder_called]
   \<and> world (fst (snd (verb_method Get example_client ''/users/{id}''
             \<lparr>content = None, path = Some [(''id'', VNum (Number 7))], query = None\<rparr> None
             (empty_store, []))))
       = [''m1'', ''m2'', ''transport'', ''a1'', ''a2'']
   \<and> (\<exists>s0. hooks_ran (map (\<lambda>m. m ''https://api/users/7'' 1) (middlewares example_client))
              s0 2 (Resolved ()) (s0\<lparr>world := [''m1'', ''m2'']\<rparr>)
           \<and> world s0 = []
           \<and> verb_init Get ''/users/{id}''
                \<lparr>content = None, path = Some [(''id'', VNum (Number 7))], query = None\<rparr> None
                empty_store = Inr (''/users/7'', 1, s0))"
proof -
  let ?opts = "\<lparr>content = None, path = Some [(''id'', VNum (Number 7))], query = None\<rparr>"
  have b: "serializeRequestBody None
             = Inr \<lparr>contentType = ''application/json'', requestBody = Some ''{}''\<rparr>"
    by (simp add: serializeRequestBody_def body_block_def or_empty_def first_key_or_json_def
          get_prop_def body_fallback_eq)
  have p: "serializePathParams ''/users/{id}'' (Some [(''id'', VNum (Number 7))]) = Inr ''/users/7''"
    by (simp add: serializePathParams_def path_block_def or_empty_def replace_def eval_dec7)
  have q: "serializeQueryParams None = Inr []"
    by (simp add: serializeQueryParams_def query_block_def or_empty_def)
  have u: "url_text ''/users/{id}'' ?opts = ''/users/7''"
    by (simp add: url_text_def p q)
  have run: "\<exists>st. verb_method Get example_client ''/users/{id}'' ?opts None (empty_store, [])
      = (Resolved \<lparr>data = VObj [(''id'', VNum (Number 7))],
                   requestResponse = ResponseSansJson.truncate example_response\<rparr>,
         st,
         [Middleware_called 0 ''https://api/users/7'' 1,
          Middleware_called 1 ''https://api/users/7'' 1,
          Transport_called ''https://api/users/7'' 1,
          Afterware_called 0 1, Afterware_called 1 1, Decoder_called])
      \<and> world st = [''m1'', ''m2'', ''transport'', ''a1'', ''a2'']"
    by (simp add: get_def return_request_def get_init_def and_then_def b p q or_fresh_def
          alloc_def assign_def caller_headers_def Let_def request_def await_def call_def
          resolve_def response_def example_client_def new_Client_def logging_middleware_def
          logging_afterware_def logging_fetch_def empty_store_def example_response_def)
  then obtain st where st:
    "verb_method Get example_client ''/users/{id}'' ?opts None (empty_store, [])
      = (Resolved \<lparr>data = VObj [(''id'', VNum (Number 7))],
                   requestResponse = ResponseSansJson.truncate example_response\<rparr>,
         st,
         [Middleware_called 0 ''https://api/users/7'' 1,
          Middleware_called 1 ''https://api/users/7'' 1,
          Transport_called ''https://api/users/7'' 1,
          Afterware_called 0 1, Afterware_called 1 1, Decoder_called])"
    "world st = [''m1'', ''m2'', ''transport'', ''a1'', ''a2'']"
    by blast
  obtain s0 where s0: "verb_init Get ''/users/{id}'' ?opts None empty_store = Inr (''/users/7'', 1, s0)"
    "world s0 = []"
    using verb_init_None[of Get "''/users/{id}''" ?opts empty_store]
    by (simp add: u empty_store_def del: verb_init.simps)
  have m1: "logging_middleware ''m1'' ''https://api/users/7'' 1 s0
              = (Resolved (), s0\<lparr>world := [''m1'']\<rparr>)"
    using s0(2) by (simp add: logging_middleware_def)
  have m2: "logging_middleware ''m2'' ''https://api/users/7'' 1 (s0\<lparr>world := [''m1'']\<rparr>)
              = (Resolved (), s0\<lparr>world := [''m1'', ''m2'']\<rparr>)"
    by (simp add: logging_middleware_def)
  have r2: "hooks_ran [logging_middleware ''m2'' ''https://api/users/7'' 1]
              (s0\<lparr>world := [''m1'']\<rparr>) (Suc 0) (Resolved ()) (s0\<lparr>world := [''m1'', ''m2'']\<rparr>)"
    using m2 hooks_ran_Nil[of "s0\<lparr>world := [''m1'', ''m2'']\<rparr>"]
    by (rule hooks_ran_step[where f = "logging_middleware ''m2'' ''https://api/users/7'' 1"])
  have r1: "hooks_ran [logging_middleware ''m1'' ''https://api/users/7'' 1,
                       logging_middleware ''m2'' ''https://api/users/7'' 1]
              s0 (Suc (Suc 0)) (Resolved ()) (s0\<lparr>world := [''m1'', ''m2'']\<rparr>)"
    using m1 r2
    by (rule hooks_ran_step[where f = "logging_middleware ''m1'' ''https://api/users/7'' 1"])
  have ran: "hooks_ran (map (\<lambda>m. m ''https://api/users/7'' 1) (middlewares example_client))
              s0 2 (Resolved ()) (s0\<lparr>world := [''m1'', ''m2'']\<rparr>)"
    using r1 by (simp add: example_client_def new_Client_def numeral_2_eq_2)
  note T = verb_call_order [of Get "''/users/{id}''" ?opts None empty_store example_client "[]"]
  from st s0 ran show ?thesis using T by (simp del: verb_init.simps)
qed

subsection \<open>C2: a middleware that raises\<close>

text \<open>
  Claim C2. When the middlewares before \<open>m\<close> resolve and \<open>m\<close> raises \<open>e\<close>, the verb
  method rejects with \<open>e\<close>; the store is the one \<open>m\<close> left, so neither the transport
  nor any later hook has touched it; and the calls made are those to the middlewares up
  to \<open>m\<close>: no call to the transport, to an afterware or to a later middleware.
\<close>

theorem raising_middleware_halts:
  assumes "verb_init v urlPath opts requestInit s = Inr (p, a, s0)"
    and "middlewares c = ms1 @ m # ms2"
    and "run_middlewares ms1 0 (baseUrl c @ p) a (s0, t) = (Resolved (), s1, t1)"
    and "m (baseUrl c @ p) a s1 = (Rejected e, s2)"
  shows "verb_method v c urlPath opts requestInit (s, t)
           = (Rejected e, s2,
              t @ map (\<lambda>i. Middleware_called i (baseUrl c @ p) a) [0..<Suc (length ms1)])
         \<and> Transport_called (baseUrl c @ p) a
             \<notin> set (map (\<lambda>i. Middleware_called i (baseUrl c @ p) a) [0..<Suc (length ms1)])
         \<and> (\<forall>j. Afterware_called j a
             \<notin> set (map (\<lambda>i. Middleware_called i (baseUrl c @ p) a) [0..<Suc (length ms1)]))
         \<and> (\<forall>k. length ms1 < k \<longrightarrow> Middleware_called k (baseUrl c @ p) a
             \<notin> set (map (\<lambda>i. Middleware_called i (baseUrl c @ p) a) [0..<Suc (length ms1)]))"
proof -
  let ?info = "baseUrl c @ p"
  let ?mw = "\<lambda>i. Middleware_called i ?info a"
  from run_middlewares_trace[of ms1 0 ?info a s0 t] assms(3)
  have t1: "t1 = t @ map ?mw [0..<length ms1]" by auto
  have "run_middlewares (m # ms2) (length ms1) ?info a (s1, t1)
          = (Rejected e, s2, t1 @ [?mw (length ms1)])"
    using assms(4) by (simp add: await_def call_def)
  with run_middlewares_append_resolved[OF assms(3), of "m # ms2"] assms(2)
  have "run_middlewares (middlewares c) 0 ?info a (s0, t)
          = (Rejected e, s2, t1 @ [?mw (length ms1)])"
    by simp
  then have "request c p (Some a) (s0, t) = (Rejected e, s2, t1 @ [?mw (length ms1)])"
    by (simp add: request_def or_fresh_def Let_def await_def)
  with assms(1) t1 show ?thesis
    by (auto simp: verb_method_eq return_request_def)
qed

text \<open>
  A client whose second middleware raises: the first and the second have run, the third
  middleware, the transport and the afterware have not.
\<close>

theorem raising_middleware_halts_witness:
  "fst (verb_method Post failing_client ''/users'' no_options None (empty_store, []))
     = Rejected (Thrown (VStr ''boom''))
   \<and> snd (snd (verb_method Post failing_client ''/users'' no_options None (empty_store, [])))
     = [Middleware_called 0 ''https://api/users'' 1, Middleware_called 1 ''https://api/users'' 1]
   \<and> world (fst (snd (verb_method Post failing_client ''/users'' no_options None (empty_store, []))))
     = [''m1'', ''boom'']"
proof -
  have u: "url_text ''/users'' no_options = ''/users''"
    by (simp add: url_text_def no_options_def serializePathParams_def path_block_def
          serializeQueryParams_def query_block_def or_empty_def)
  have h1: "verb_init Post ''/users'' no_options None empty_store
      = Inr (''/users'', 1,
          empty_store\<lparr>heap := (heap empty_store)(next_free empty_store := empty_init
              \<lparr>init_method := Some (verb_name Post),
               init_headers := Some (merged_headers (contentType (built_body no_options)) None),
               init_body := (if Post = Get then None else requestBody (built_body no_options))\<rparr>),
            next_free := Suc (next_free empty_store)\<rparr>)"
    (is "_ = Inr (_, _, ?s0)")
    by (simp only: verb_init_None u) (simp add: empty_store_def)
  have h2: "middlewares failing_client
      = [logging_middleware ''m1''] @ raising_middleware ''boom'' # [logging_middleware ''m2'']"
    by (simp add: failing_client_def new_Client_def)
  have h3: "run_middlewares [logging_middleware ''m1''] 0 (baseUrl failing_client @ ''/users'') 1
              (?s0, [])
      = (Resolved (), ?s0\<lparr>world := world ?s0 @ [''m1'']\<rparr>,
         [Middleware_called 0 (baseUrl failing_client @ ''/users'') 1])"
    by (simp add: await_def call_def resolve_def logging_middleware_def)
  have h4: "raising_middleware ''boom'' (baseUrl failing_client @ ''/users'') 1
              (?s0\<lparr>world := world ?s0 @ [''m1'']\<rparr>)
      = (Rejected (Thrown (VStr ''boom'')),
         ?s0\<lparr>world := world ?s0 @ [''m1''] @ [''boom'']\<rparr>)"
    by (simp add: raising_middleware_def)
  from raising_middleware_halts[OF h1 h2 h3 h4]
  show ?thesis by (simp add: failing_client_def new_Client_def empty_store_def upt_conv_Cons)
qed

subsection \<open>C3: body construction\<close>

text \<open>
  Claim C3 at a falsy payload. The content map \<^verbatim>\<open>{"application/json": 0}\<close> has an
  entry; the JSON text of its payload is \<^verbatim>\<open>0\<close>, and the body built for it is
  \<^verbatim>\<open>{}\<close>: the guard \<^verbatim>\<open>content[contentType] || {}\<close> takes a falsy payload for a
  missing one. The same happens to \<^verbatim>\<open>false\<close>, \<^verbatim>\<open>null\<close> and the empty string,
  whatever the content type.
\<close>

theorem serializeRequestBody_falsy_payload:
  "serializeRequestBody (Some [(''application/json'', VNum (Number 0))])
     = Inr \<lparr>contentType = ''application/json'', requestBody = Some ''{}''\<rparr>
   \<and> JSON_stringify (VNum (Number 0)) = Inr (Some ''0'')
   \<and> serializeRequestBody (Some [(''application/json'', VBool False)])
     = Inr \<lparr>contentType = ''application/json'', requestBody = Some ''{}''\<rparr>
   \<and> JSON_stringify (VBool False) = Inr (Some ''false'')
   \<and> serializeRequestBody (Some [(''application/json'', VNull)])
     = Inr \<lparr>contentType = ''application/json'', requestBody = Some ''{}''\<rparr>
   \<and> JSON_stringify VNull = Inr (Some ''null'')
   \<and> serializeRequestBody (Some [(''text/plain'', VStr [])])
     = Inr \<lparr>contentType = ''text/plain'', requestBody = Some ''{}''\<rparr>
   \<and> JSON_stringify (VStr []) = Inr (Some [CHR 0x22, CHR 0x22])"
  by (simp add: serializeRequestBody_def body_first_key dec_int_def dec_nat.simps digit_char_def
        json_quote_def)

subsection \<open>C4: path substitution\<close>

text \<open>
  Claim C4 at a value that contains a replacement pattern: for the path map
  \<^verbatim>\<open>{id: "$$"}\<close> the placeholder is replaced by a single dollar sign, and for
  \<^verbatim>\<open>{id: "a$&"}\<close> by \<^verbatim>\<open>a{id}\<close>, not by the value.
\<close>

theorem serializePathParams_dollar_value:
  "serializePathParams ''/users/{id}'' (Some [(''id'', VStr ''$$'')]) = Inr ''/users/$''
   \<and> serializePathParams ''/users/{id}'' (Some [(''id'', VStr ''a$&'')]) = Inr ''/users/a{id}''"
  by (simp add: serializePathParams_def path_block_def or_empty_def replace_def)

subsection \<open>C5: query construction\<close>

text \<open>
  Claim C5. For a query map whose values have a string form, the result is the
  accumulator \<^verbatim>\<open>?\<close> followed by \<^verbatim>\<open>key=value&\<close> for each entry in order, without
  its last character; for a non-empty map that is \<^verbatim>\<open>?\<close> followed by the pairs joined
  with \<^verbatim>\<open>&\<close>. An absent or empty map gives the empty string, a single entry gives
  \<^verbatim>\<open>?key=value\<close>. A value without a string form (a symbol, or an object whose
  own \<^verbatim>\<open>toString\<close> property is not callable) makes the guarded block throw, and the
  result is then the empty string.
\<close>

theorem serializeQueryParams_builds_query:
  "(list_all has_string_form q \<longrightarrow>
      serializeQueryParams (Some q)
        = Inr (butlast (''?'' @ concat (map (\<lambda>kv. pair_text kv @ ''&'') q))))
   \<and> (list_all has_string_form q \<and> q \<noteq> [] \<longrightarrow>
      serializeQueryParams (Some q) = Inr (''?'' @ join_with ''&'' (map pair_text q)))
   \<and> (\<not> list_all has_string_form q \<longrightarrow> serializeQueryParams (Some q) = Inr [])
   \<and> serializeQueryParams None = Inr []
   \<and> serializeQueryParams (Some []) = Inr []
   \<and> (to_string v = Inr w \<longrightarrow> serializeQueryParams (Some [(k, v)]) = Inr (''?'' @ k @ ''='' @ w))"
proof -
  have one: "serializeQueryParams (Some [(k, v)]) = Inr (''?'' @ k @ ''='' @ w)"
    if "to_string v = Inr w"
    using that by (simp add: serializeQueryParams_def query_block_def or_empty_def butlast_append)
  have none: "serializeQueryParams None = Inr []" "serializeQueryParams (Some []) = Inr []"
    by (simp_all add: serializeQueryParams_def query_block_def or_empty_def)
  show ?thesis using query_ok query_join query_no_string_form one none by blast
qed

text \<open>
  The example of the specification, \<^verbatim>\<open>{a: 1, b: 2}\<close>, and a single entry whose value
  is not encoded; a map with a symbol and one with an object that cannot be converted;
  and a map with a plain object and an array.
\<close>

theorem serializeQueryParams_builds_query_witness:
  "list_all has_string_form [(''a'', VNum (Number 1)), (''b'', VNum (Number 2))]
   \<and> serializeQueryParams (Some [(''a'', VNum (Number 1)), (''b'', VNum (Number 2))]) = Inr ''?a=1&b=2''
   \<and> to_string (VStr ''x y'') = Inr ''x y''
   \<and> serializeQueryParams (Some [(''q'', VStr ''x y'')]) = Inr ''?q=x y''
   \<and> \<not> list_all has_string_form [(''a'', VNum (Number 1)), (''s'', VSymbol ''t'')]
   \<and> serializeQueryParams (Some [(''a'', VNum (Number 1)), (''s'', VSymbol ''t'')]) = Inr []
   \<and> \<not> list_all has_string_form [(''a'', VObj [(''toString'', VStr ''x'')])]
   \<and> serializeQueryParams (Some [(''a'', VObj [(''toString'', VStr ''x'')])]) = Inr []
   \<and> list_all has_string_form [(''a'', VObj [(''x'', VNull)]), (''b'', VArr [VNull, VBool True])]
   \<and> serializeQueryParams (Some [(''a'', VObj [(''x'', VNull)]), (''b'', VArr [VNull, VBool True])])
       = Inr ''?a=[object Object]&b=,true''"
proof -
  have dec: "dec_int 1 = ''1''" "dec_int 2 = ''2''"
    by (simp_all add: dec_int_def dec_nat.simps digit_char_def)
  have h: "list_all has_string_form [(''a'', VNum (Number 1)), (''b'', VNum (Number 2))]"
    by (simp add: has_string_form_def)
  have v: "to_string (VStr ''x y'') = Inr ''x y''" by simp
  have n: "\<not> list_all has_string_form [(''a'', VNum (Number 1)), (''s'', VSymbol ''t'')]"
    by (simp add: has_string_form_def)
  have o: "\<not> list_all has_string_form [(''a'', VObj [(''toString'', VStr ''x'')])]"
    by (simp add: has_string_form_def)
  have g: "list_all has_string_form
             [(''a'', VObj [(''x'', VNull)]), (''b'', VArr [VNull, VBool True])]"
    by (simp add: has_string_form_def)
  from serializeQueryParams_builds_query
         [of "[(''a'', VNum (Number 1)), (''b'', VNum (Number 2))]" "VStr ''x y''" "''x y''" "''q''"]
       serializeQueryParams_builds_query [of "[(''a'', VNum (Number 1)), (''s'', VSymbol ''t'')]"]
       serializeQueryParams_builds_query [of "[(''a'', VObj [(''toString'', VStr ''x'')])]"]
       serializeQueryParams_builds_query
         [of "[(''a'', VObj [(''x'', VNull)]), (''b'', VArr [VNull, VBool True])]"]
       h v n o g
  show ?thesis by (simp add: pair_text_def dec)
qed

subsection \<open>C6: GET and the body\<close>

text \<open>
  Claim C6 at an overrides object that was used for a POST before: \<^verbatim>\<open>post\<close> has
  written the body into the caller's object, and the descriptor \<^verbatim>\<open>get\<close> then builds
  from the same object has the method \<^verbatim>\<open>GET\<close> and still carries that body.
\<close>

theorem get_after_post_carries_body:
  "init_body (heap (fst (snd (post bare_client ''/users''
       \<lparr>content = Some [(''application/json'', VObj [(''x'', VNum (Number 1))])], path = None, query = None\<rparr>
       (Some 0) (empty_store, [])))) 0)
     = Some (CHR ''{'' # CHR 0x22 # CHR ''x'' # CHR 0x22 # '':1}'')
   \<and> init_method (heap (snd (snd (projr (get_init ''/users'' no_options (Some 0)
        (fst (snd (post bare_client ''/users''
           \<lparr>content = Some [(''application/json'', VObj [(''x'', VNum (Number 1))])], path = None, query = None\<rparr>
           (Some 0) (empty_store, []))))))))  0) = Some ''GET''
   \<and> init_body (heap (snd (snd (projr (get_init ''/users'' no_options (Some 0)
        (fst (snd (post bare_client ''/users''
           \<lparr>content = Some [(''application/json'', VObj [(''x'', VNum (Number 1))])], path = None, query = None\<rparr>
           (Some 0) (empty_store, []))))))))  0)
     = Some (CHR ''{'' # CHR 0x22 # CHR ''x'' # CHR 0x22 # '':1}'')"
proof -
  have b: "serializeRequestBody None
             = Inr \<lparr>contentType = ''application/json'', requestBody = Some ''{}''\<rparr>"
    by (simp add: serializeRequestBody_def body_block_def or_empty_def first_key_or_json_def
          get_prop_def body_fallback_eq)
  have p: "serializePathParams ''/users'' None = Inr ''/users''"
    by (simp add: serializePathParams_def path_block_def or_empty_def)
  have q: "serializeQueryParams None = Inr []"
    by (simp add: serializeQueryParams_def query_block_def or_empty_def)
  show ?thesis
    by (simp add: post_def return_request_def post_init_def get_init_def no_options_def
          and_then_def eval_body_x1 b p q or_fresh_def assign_def caller_headers_def Let_def
          request_def await_def call_def resolve_def response_def bare_client_def new_Client_def
          logging_fetch_def empty_store_def example_response_def)
qed

subsection \<open>C7: the serializers never throw\<close>

text \<open>
  Claim C7. Each serializer returns a value for every input, and when its guarded block
  throws, that value is its default: the template, the empty string, and
  \<^verbatim>\<open>application/json\<close> with the body \<^verbatim>\<open>{}\<close>.
\<close>

theorem serializers_never_throw:
  "(\<exists>r. serializePathParams template params = Inr r)
   \<and> (\<exists>r. serializeQueryParams qry = Inr r)
   \<and> (\<exists>r. serializeRequestBody cnt = Inr r)
   \<and> (isl (path_block template params) \<longrightarrow> serializePathParams template params = Inr template)
   \<and> (isl (query_block qry) \<longrightarrow> serializeQueryParams qry = Inr [])
   \<and> (isl (body_block cnt) \<longrightarrow>
        serializeRequestBody cnt
          = Inr \<lparr>contentType = ''application/json'', requestBody = Some ''{}''\<rparr>)"
proof -
  have p: "isl (path_block template params) \<longrightarrow> serializePathParams template params = Inr template"
    by (cases "path_block template params") (simp_all add: serializePathParams_def)
  have q: "isl (query_block qry) \<longrightarrow> serializeQueryParams qry = Inr []"
    by (cases "query_block qry") (simp_all add: serializeQueryParams_def)
  have b: "isl (body_block cnt) \<longrightarrow>
        serializeRequestBody cnt
          = Inr \<lparr>contentType = ''application/json'', requestBody = Some ''{}''\<rparr>"
    by (cases "body_block cnt") (simp_all add: serializeRequestBody_def body_fallback_eq)
  show ?thesis
    using p q b serializePathParams_returns serializeQueryParams_returns
      serializeRequestBody_returns by blast
qed

text \<open>
  Inputs on which the guarded blocks do throw: a symbol as a path or query value, a
  BigInt inside the payload, and an absent content map.
\<close>

theorem serializers_never_throw_witness:
  "isl (path_block ''/users/{id}/{tag}'' (Some [(''id'', VNum (Number 7)), (''tag'', VSymbol ''t'')]))
   \<and> serializePathParams ''/users/{id}/{tag}'' (Some [(''id'', VNum (Number 7)), (''tag'', VSymbol ''t'')])
       = Inr ''/users/{id}/{tag}''
   \<and> isl (query_block (Some [(''a'', VSymbol ''t'')]))
   \<and> serializeQueryParams (Some [(''a'', VSymbol ''t'')]) = Inr []
   \<and> isl (body_block (Some [(''application/json'', VArr [VBigInt 1])]))
   \<and> serializeRequestBody (Some [(''application/json'', VArr [VBigInt 1])])
       = Inr \<lparr>contentType = ''application/json'', requestBody = Some ''{}''\<rparr>
   \<and> isl (body_block None)
   \<and> serializeRequestBody None
       = Inr \<lparr>contentType = ''application/json'', requestBody = Some ''{}''\<rparr>"
proof -
  have p: "isl (path_block ''/users/{id}/{tag}'' (Some [(''id'', VNum (Number 7)), (''tag'', VSymbol ''t'')]))"
    by (simp add: path_block_def or_empty_def replace_def)
  have q: "isl (query_block (Some [(''a'', VSymbol ''t'')]))"
    by (simp add: query_block_def or_empty_def)
  have b: "isl (body_block (Some [(''application/json'', VArr [VBigInt 1])]))"
    by (simp add: body_block_def or_empty_def first_key_or_json_def get_prop_def)
  have n: "isl (body_block None)"
    by (simp add: body_block_def or_empty_def first_key_or_json_def get_prop_def)
  from serializers_never_throw
         [of "''/users/{id}/{tag}''" "Some [(''id'', VNum (Number 7)), (''tag'', VSymbol ''t'')]"
             "Some [(''a'', VSymbol ''t'')]" "Some [(''application/json'', VArr [VBigInt 1])]"]
       serializers_never_throw [of "[]" None None None] p q b n
  show ?thesis by simp
qed

subsection \<open>C8: caller-supplied headers\<close>

text \<open>
  Claim C8 at caller-supplied headers given as a \<^verbatim>\<open>Headers\<close> instance: the spread
  copies none of its entries, and the descriptor's headers are the computed
  \<^verbatim>\<open>Content-Type\<close> alone.
\<close>

theorem headers_instance_dropped:
  "init_headers
     (heap (snd (snd (projr
        (get_init ''/users'' no_options (Some 0)
           (empty_store\<lparr>heap := (heap empty_store)
              (0 := empty_init\<lparr>init_headers :=
                      Some (HInstance [(''Authorization'', ''Bearer t'')])\<rparr>)\<rparr>))))) 0)
   = Some (HRecord [''Content-Type'' \<mapsto> VStr ''application/json''])"
proof -
  have b: "serializeRequestBody None
             = Inr \<lparr>contentType = ''application/json'', requestBody = Some ''{}''\<rparr>"
    by (simp add: serializeRequestBody_def body_block_def or_empty_def first_key_or_json_def
          get_prop_def body_fallback_eq)
  have p: "serializePathParams ''/users'' None = Inr ''/users''"
    by (simp add: serializePathParams_def path_block_def or_empty_def)
  have q: "serializeQueryParams None = Inr []"
    by (simp add: serializeQueryParams_def query_block_def or_empty_def)
  show ?thesis
    by (simp add: get_init_def no_options_def and_then_def b p q or_fresh_def assign_def
          caller_headers_def merged_headers_def spread_def Let_def)
qed

subsection \<open>C9: the decoder\<close>

text \<open>
  Claim C9. For a response with a body whose JSON accessor resolves with \<open>v\<close>, the
  decoder resolves with \<open>data = v\<close>; for a response without a body, with the empty
  object. The other component is the response without its JSON accessor, every other
  field unchanged. (When the accessor rejects, so does the decoder.)
\<close>

theorem response_decodes:
  "(body r \<noteq> None \<and> json r = Resolved v \<longrightarrow>
      response r (s, t)
        = (Resolved \<lparr>data = v, requestResponse = ResponseSansJson.truncate r\<rparr>,
           s, t @ [Decoder_called]))
   \<and> (body r = None \<longrightarrow>
      response r (s, t)
        = (Resolved \<lparr>data = VObj [], requestResponse = ResponseSansJson.truncate r\<rparr>,
           s, t @ [Decoder_called]))
   \<and> (body r \<noteq> None \<and> json r = Rejected e \<longrightarrow>
      response r (s, t) = (Rejected e, s, t @ [Decoder_called]))
   \<and> ok (ResponseSansJson.truncate r) = ok r
   \<and> status (ResponseSansJson.truncate r) = status r
   \<and> statusText (ResponseSansJson.truncate r) = statusText r
   \<and> headers (ResponseSansJson.truncate r) = headers r
   \<and> url (ResponseSansJson.truncate r) = url r
   \<and> body (ResponseSansJson.truncate r) = body r"
  by (simp add: response_def await_def call_def resolve_def ResponseSansJson.truncate_def)

text \<open>
  A response with a JSON body, and the same response without a body.
\<close>

theorem response_decodes_witness:
  "body example_response \<noteq> None \<and> json example_response = Resolved (VObj [(''id'', VNum (Number 7))])
   \<and> response example_response (empty_store, [])
       = (Resolved \<lparr>data = VObj [(''id'', VNum (Number 7))],
                    requestResponse =
                      \<lparr>ok = True, status = 200, statusText = ''OK'', headers = [],
                       url = ''https://api/users/7'', body = Some ''bytes''\<rparr>\<rparr>,
          empty_store, [Decoder_called])
   \<and> body (example_response\<lparr>body := None\<rparr>) = None
   \<and> data (case fst (response (example_response\<lparr>body := None\<rparr>) (empty_store, [])) of
             Resolved env \<Rightarrow> env) = VObj []"
proof -
  have b: "body example_response \<noteq> None" "json example_response = Resolved (VObj [(''id'', VNum (Number 7))])"
    by (simp_all add: example_response_def)
  have n: "body (example_response\<lparr>body := None\<rparr>) = None" by simp
  from response_decodes [of example_response "VObj [(''id'', VNum (Number 7))]" empty_store "[]"]
       response_decodes [of "example_response\<lparr>body := None\<rparr>" _ empty_store "[]"] b n
  show ?thesis by (simp add: example_response_def ResponseSansJson.truncate_def)
qed

subsection \<open>C10: the overrides object is mutated in place\<close>



end
